theory Spec2Isabelle
  imports Main "HOL-Library.Sublist"
begin

section \<open>getEpgs.py: merging XMLTV guides\<close>

text \<open>
  A shallow embedding of \<^verbatim>\<open>getEpgs.py\<close>. Python strings are \<open>string\<close>; an attribute
  that may be missing (\<^verbatim>\<open>elem.get\<close> returning \<^verbatim>\<open>None\<close>) is a \<open>string option\<close>;
  Python integers are \<open>int\<close>. Library calls whose results the program only consumes
  (\<^verbatim>\<open>datetime.strptime\<close>, \<^verbatim>\<open>datetime.now\<close>, \<^verbatim>\<open>ET.iterparse\<close>, \<^verbatim>\<open>gzip.GzipFile\<close>,
  \<^verbatim>\<open>requests.get\<close>) are parameters: the fields of the record \<open>world\<close> and the
  per-source function \<open>net\<close>. A \<open>char\<close> is one of the 256 code points below
  0x100; the character tests below say what the source does on these.

  Left out: the console prints, \<^verbatim>\<open>elem.clear()\<close> and \<^verbatim>\<open>response.close()\<close> in
  \<^verbatim>\<open>process_epg_source\<close> (neither changes what is written or counted), a failure to
  open or write the output file, and \<^verbatim>\<open>get_valid_tvg_ids\<close>, whose result the run takes
  as an argument.
\<close>

subsection \<open>Module-level configuration\<close>

record config =
  days_future :: int
  days_past :: int
  skip_dummy_programs :: bool
  max_retries :: int
  retry_delay :: int

text \<open>The values the module assigns at lines 10 to 15.\<close>

definition default_config :: config where
  "default_config =
     \<lparr>days_future = 0, days_past = 1, skip_dummy_programs = False,
      max_retries = 5, retry_delay = 5\<rparr>"

subsection \<open>Text repair\<close>

text \<open>
  \<^verbatim>\<open>str.replace(old, new)\<close>: all non-overlapping occurrences, scanning from the left.
  With an empty \<open>old\<close> Python puts \<open>new\<close> before every character and at the end.
\<close>

function str_replace :: "string \<Rightarrow> string \<Rightarrow> string \<Rightarrow> string" where
  "str_replace old new [] = (if old = [] then new else [])"
| "str_replace old new (c # cs) =
     (if old = [] then new @ c # str_replace old new cs
      else if prefix old (c # cs)
           then new @ str_replace old new (drop (length old - 1) cs)
           else c # str_replace old new cs)"
  by pat_completeness auto
termination
  by (relation "measure (\<lambda>(old, new, s). length s)") auto

text \<open>
  What \<^verbatim>\<open>\s\<close> matches in a Python 3 \<^verbatim>\<open>str\<close> pattern, among the code points below 256:
  tab, line feed, vertical tab, form feed, carriage return, the four separators
  0x1C to 0x1F, space, next-line 0x85 and no-break space 0xA0.
\<close>

definition is_space :: "char \<Rightarrow> bool" where
  "is_space c =
     (let n = (of_char c :: nat)
      in (9 \<le> n \<and> n \<le> 13) \<or> (28 \<le> n \<and> n \<le> 32) \<or> n = 133 \<or> n = 160)"

definition close_tag :: string where
  "close_tag = ''</programme>''"

definition open_tag :: string where
  "open_tag = ''<programme''"

text \<open>
  Whether the pattern \<^verbatim>\<open></programme>\s*<programme\<close> matches at the start of the text.
  The greedy \<^verbatim>\<open>\s*\<close> takes the whole run of whitespace; no shorter run can be followed
  by \<^verbatim>\<open><\<close>.
\<close>

definition tag_gap_match :: "string \<Rightarrow> bool" where
  "tag_gap_match s =
     (prefix close_tag s \<and> prefix open_tag (dropWhile is_space (drop (length close_tag) s)))"

text \<open>The text after such a match.\<close>

definition after_tag_gap :: "string \<Rightarrow> string" where
  "after_tag_gap s =
     drop (length open_tag) (dropWhile is_space (drop (length close_tag) s))"

text \<open>
  \<^verbatim>\<open>re.sub(r'</programme>\s*<programme', '</programme>\n<programme', text)\<close>
\<close>

function sub_programme :: "string \<Rightarrow> string" where
  "sub_programme [] = []"
| "sub_programme (c # cs) =
     (if tag_gap_match (c # cs)
      then close_tag @ [CHR 0x0A] @ open_tag @ sub_programme (after_tag_gap (c # cs))
      else c # sub_programme cs)"
  by pat_completeness auto
termination
proof (relation "measure length")
  show "wf (measure length)"
    by simp
next
  fix c cs
  have "length (after_tag_gap (c # cs)) \<le> length (drop (length close_tag) (c # cs))"
    unfolding after_tag_gap_def
    using length_dropWhile_le [of is_space "drop (length close_tag) (c # cs)"]
    by (simp del: drop_Suc_Cons)
  also have "\<dots> \<le> length cs"
    by (simp add: close_tag_def)
  finally show "(after_tag_gap (c # cs), c # cs) \<in> measure length"
    by simp
next
  fix c cs
  show "(cs, c # cs) \<in> measure length"
    by simp
qed

text \<open>
  The character class \<^verbatim>\<open>[^\x20-\x7E\n\r\t]\<close> is everything that is not kept.
\<close>

definition keep_char :: "char \<Rightarrow> bool" where
  "keep_char c =
     (let n = (of_char c :: nat)
      in (32 \<le> n \<and> n \<le> 126) \<or> n = 10 \<or> n = 13 \<or> n = 9)"

definition fix_xml_issues :: "string \<Rightarrow> string" where
  "fix_xml_issues xml_content =
     (let xml_content1 = str_replace ''&amp;amp;'' ''&amp;'' xml_content;
          xml_content2 = sub_programme xml_content1
      in filter keep_char xml_content2)"

subsection \<open>Timestamps\<close>

text \<open>
  A naive \<^verbatim>\<open>datetime\<close> is the number of microseconds since 0001-01-01 00:00:00; the
  type holds the instants up to 9999-12-31 23:59:59.999999, and arithmetic that leaves
  the range raises \<^verbatim>\<open>OverflowError\<close>.
\<close>

type_synonym datetime = int

definition datetime_max :: datetime where
  "datetime_max = 315537897599999999"

definition valid_datetime :: "datetime \<Rightarrow> bool" where
  "valid_datetime t = (0 \<le> t \<and> t \<le> datetime_max)"

datatype py_exn = OverflowError | ReadError

definition add_days :: "datetime \<Rightarrow> int \<Rightarrow> py_exn + datetime" where
  "add_days t d =
     (let r = t + d * 86400000000
      in if valid_datetime r then Inr r else Inl OverflowError)"

subsection \<open>Elements and streams\<close>

text \<open>
  An element as the loop sees it at its end event: the tag, the attributes, and the text
  \<^verbatim>\<open>ET.tostring(elem, encoding='unicode')\<close> gives at that moment.
\<close>

record elem =
  tag :: string
  attrib :: "(string \<times> string) list"
  serialized :: string

definition elem_get :: "elem \<Rightarrow> string \<Rightarrow> string option" where
  "elem_get e k = map_of (attrib e) k"

text \<open>
  How iterating over \<^verbatim>\<open>ET.iterparse\<close> ends: the document closes, the parser raises
  \<^verbatim>\<open>ParseError\<close>, or reading the stream raises something else (a gzip or a
  connection error).
\<close>

datatype ending = Eof | ParseError | ReadFailure

record 'b world =
  strptime :: "string \<Rightarrow> datetime option"
  datetime_now :: "nat \<Rightarrow> datetime"
  iterparse :: "'b \<Rightarrow> elem list \<times> ending"
  GzipFile :: "'b \<Rightarrow> 'b"

text \<open>
  \<open>strptime w s\<close> is \<^verbatim>\<open>datetime.strptime(s, '%Y%m%d%H%M%S')\<close>, \<open>None\<close> when it raises;
  \<open>datetime_now w n\<close> is what the call number \<open>n\<close> of \<^verbatim>\<open>datetime.now()\<close> returns;
  \<open>iterparse w f\<close> is the list of elements whose end events the parser yields from the
  stream \<open>f\<close>, in document order, and how the iteration ends.
\<close>

definition parse_xmltv_time :: "'b world \<Rightarrow> string option \<Rightarrow> datetime option" where
  "parse_xmltv_time w time_str =
     (case time_str of
        None \<Rightarrow> None
      | Some s \<Rightarrow> if s = [] then None else strptime w (take 14 s))"

text \<open>
  The two window tests take the number of \<^verbatim>\<open>datetime.now()\<close> calls made so far and
  return it updated, next to the result or the exception.
\<close>

definition is_programme_too_far_future ::
  "'b world \<Rightarrow> string option \<Rightarrow> int \<Rightarrow> nat \<Rightarrow> (py_exn + bool) \<times> nat" where
  "is_programme_too_far_future w start_time_str days_limit k =
     (if days_limit \<le> 0 then (Inr False, k)
      else case parse_xmltv_time w start_time_str of
             None \<Rightarrow> (Inr False, k)
           | Some start_time \<Rightarrow>
               (case add_days (datetime_now w k) days_limit of
                  Inl ex \<Rightarrow> (Inl ex, Suc k)
                | Inr future_cutoff \<Rightarrow> (Inr (start_time > future_cutoff), Suc k)))"

definition is_programme_too_far_past ::
  "'b world \<Rightarrow> string option \<Rightarrow> int \<Rightarrow> nat \<Rightarrow> (py_exn + bool) \<times> nat" where
  "is_programme_too_far_past w stop_time_str days_limit k =
     (if days_limit \<le> 0 then (Inr False, k)
      else case parse_xmltv_time w stop_time_str of
             None \<Rightarrow> (Inr False, k)
           | Some stop_time \<Rightarrow>
               (case add_days (datetime_now w k) (- days_limit) of
                  Inl ex \<Rightarrow> (Inl ex, Suc k)
                | Inr past_cutoff \<Rightarrow> (Inr (stop_time < past_cutoff), Suc k)))"

subsection \<open>Dummy channels\<close>

text \<open>
  \<^verbatim>\<open>str.lower\<close> on the ASCII letters. No other character lowers to one of the letters
  of \<^verbatim>\<open>dummy\<close>, so the test below is the one of the source.
\<close>

definition lower_char :: "char \<Rightarrow> char" where
  "lower_char c =
     (let n = (of_char c :: nat)
      in if 65 \<le> n \<and> n \<le> 90 then char_of (n + 32) else c)"

fun contains :: "string \<Rightarrow> string \<Rightarrow> bool" where
  "contains sub [] = (sub = [])"
| "contains sub (c # cs) = (prefix sub (c # cs) \<or> contains sub cs)"

definition is_dummy_programme :: "config \<Rightarrow> string option \<Rightarrow> bool" where
  "is_dummy_programme cfg tvg_id =
     (if \<not> skip_dummy_programs cfg then False
      else case tvg_id of
             None \<Rightarrow> False
           | Some s \<Rightarrow> if s = [] then False else contains ''dummy'' (map lower_char s))"

subsection \<open>Fetching with retries\<close>

record 'b response =
  status_code :: int
  raw :: 'b

datatype 'b outcome = Timeout | ConnectionError | RequestException | Response "'b response"

datatype effect = HttpGet string int int | Close | Sleep int

text \<open>
  \<open>net attempt\<close> is what \<^verbatim>\<open>requests.get\<close> does at that attempt. The trace records
  the call with its url, timeout and attempt number, \<^verbatim>\<open>response.close()\<close> and
  \<^verbatim>\<open>time.sleep\<close>.
\<close>

definition after_failure :: "config \<Rightarrow> int \<Rightarrow> effect list" where
  "after_failure cfg attempt =
     (if attempt < max_retries cfg then [Sleep (retry_delay cfg)] else [])"

fun fetch_attempts ::
  "config \<Rightarrow> (int \<Rightarrow> 'b outcome) \<Rightarrow> string \<Rightarrow> int \<Rightarrow> int list
     \<Rightarrow> 'b response option \<times> effect list" where
  "fetch_attempts cfg net url timeout [] = (None, [])"
| "fetch_attempts cfg net url timeout (attempt # rest) =
     (case net attempt of
        Response r \<Rightarrow>
          if status_code r = 200 then (Some r, [HttpGet url timeout attempt])
          else (let (res, tr) = fetch_attempts cfg net url timeout rest
                in (res, [HttpGet url timeout attempt, Close] @ after_failure cfg attempt @ tr))
      | _ \<Rightarrow>
          (let (res, tr) = fetch_attempts cfg net url timeout rest
           in (res, [HttpGet url timeout attempt] @ after_failure cfg attempt @ tr)))"

definition fetch_with_retry ::
  "config \<Rightarrow> (int \<Rightarrow> 'b outcome) \<Rightarrow> string \<Rightarrow> int \<Rightarrow> 'b response option \<times> effect list" where
  "fetch_with_retry cfg net url timeout =
     fetch_attempts cfg net url timeout [1..max_retries cfg]"

subsection \<open>The merge state\<close>

record stats =
  total_channels_in_sources :: int
  total_programmes_in_sources :: int
  channels_filtered_by_tvg_id :: int
  programmes_filtered_by_tvg_id :: int
  programmes_filtered_by_future :: int
  programmes_filtered_by_past :: int
  programmes_filtered_by_dummy :: int

text \<open>The local counters of one call of \<^verbatim>\<open>stream_parse_epg\<close>.\<close>

record counters =
  channels_added :: int
  channels_filtered :: int
  programmes_added :: int
  programmes_filtered_tvg :: int
  programmes_skipped_future :: int
  programmes_skipped_past :: int
  programmes_skipped_dummy :: int
  prog_count :: int

definition counters0 :: counters where
  "counters0 =
     \<lparr>channels_added = 0, channels_filtered = 0, programmes_added = 0,
      programmes_filtered_tvg = 0, programmes_skipped_future = 0,
      programmes_skipped_past = 0, programmes_skipped_dummy = 0, prog_count = 0\<rparr>"

text \<open>
  What was written to the output file, in order. \<open>Element e\<close> is the write of
  \<^verbatim>\<open>'  ' + ET.tostring(e, encoding='unicode') + '\n'\<close>.
\<close>

datatype chunk = Text string | Element elem

fun chunk_text :: "chunk \<Rightarrow> string" where
  "chunk_text (Text s) = s"
| "chunk_text (Element e) = ''  '' @ serialized e @ [CHR 0x0A]"

record run_state =
  output_handle :: "chunk list"
  seen_channels :: "string option set"
  seen_programmes :: "string set"
  stats :: stats
  now_calls :: nat

text \<open>\<^verbatim>\<open>valid_tvg_ids and tvg_id not in valid_tvg_ids\<close>\<close>

definition not_allowed :: "string set \<Rightarrow> string option \<Rightarrow> bool" where
  "not_allowed valid_tvg_ids tvg_id =
     (valid_tvg_ids \<noteq> {} \<and> tvg_id \<notin> Some ` valid_tvg_ids)"

text \<open>An f-string prints \<^verbatim>\<open>None\<close> for a missing attribute.\<close>

definition py_str :: "string option \<Rightarrow> string" where
  "py_str v = (case v of None \<Rightarrow> ''None'' | Some s \<Rightarrow> s)"

definition prog_key :: "string option \<Rightarrow> string option \<Rightarrow> string option \<Rightarrow> string" where
  "prog_key tvg_id start_time stop_time =
     py_str tvg_id @ ''_'' @ py_str start_time @ ''_'' @ py_str stop_time"

definition handle_channel ::
  "string set \<Rightarrow> elem \<Rightarrow> counters \<Rightarrow> run_state \<Rightarrow> counters \<times> run_state" where
  "handle_channel valid_tvg_ids e c s =
     (let tvg_id = elem_get e ''id'';
          s1 = s\<lparr>stats := (stats s)\<lparr>total_channels_in_sources :=
                  total_channels_in_sources (stats s) + 1\<rparr>\<rparr>
      in if not_allowed valid_tvg_ids tvg_id
         then (c\<lparr>channels_filtered := channels_filtered c + 1\<rparr>, s1)
         else if tvg_id \<notin> seen_channels s1
         then (c\<lparr>channels_added := channels_added c + 1\<rparr>,
               s1\<lparr>seen_channels := insert tvg_id (seen_channels s1),
                  output_handle := output_handle s1 @ [Element e]\<rparr>)
         else (c, s1))"

definition handle_programme ::
  "'b world \<Rightarrow> config \<Rightarrow> string set \<Rightarrow> elem \<Rightarrow> counters \<Rightarrow> run_state
     \<Rightarrow> py_exn option \<times> counters \<times> run_state" where
  "handle_programme w cfg valid_tvg_ids e c0 s =
     (let c = c0\<lparr>prog_count := prog_count c0 + 1\<rparr>;
          tvg_id = elem_get e ''channel'';
          start_time = elem_get e ''start'';
          stop_time = elem_get e ''stop'';
          s1 = s\<lparr>stats := (stats s)\<lparr>total_programmes_in_sources :=
                  total_programmes_in_sources (stats s) + 1\<rparr>\<rparr>
      in if not_allowed valid_tvg_ids tvg_id
         then (None, c\<lparr>programmes_filtered_tvg := programmes_filtered_tvg c + 1\<rparr>, s1)
         else if is_dummy_programme cfg tvg_id
         then (None, c\<lparr>programmes_skipped_dummy := programmes_skipped_dummy c + 1\<rparr>, s1)
         else
           (case is_programme_too_far_future w start_time (days_future cfg) (now_calls s1) of
              (Inl ex, k) \<Rightarrow> (Some ex, c, s1\<lparr>now_calls := k\<rparr>)
            | (Inr too_far, k) \<Rightarrow>
                if too_far
                then (None, c\<lparr>programmes_skipped_future := programmes_skipped_future c + 1\<rparr>,
                      s1\<lparr>now_calls := k\<rparr>)
                else
                  (case is_programme_too_far_past w stop_time (days_past cfg) k of
                     (Inl ex, k') \<Rightarrow> (Some ex, c, s1\<lparr>now_calls := k'\<rparr>)
                   | (Inr too_old, k') \<Rightarrow>
                       if too_old
                       then (None,
                             c\<lparr>programmes_skipped_past := programmes_skipped_past c + 1\<rparr>,
                             s1\<lparr>now_calls := k'\<rparr>)
                       else
                         (let prog_key = prog_key tvg_id start_time stop_time;
                              s2 = s1\<lparr>now_calls := k'\<rparr>
                          in if prog_key \<notin> seen_programmes s2
                             then (None, c\<lparr>programmes_added := programmes_added c + 1\<rparr>,
                                   s2\<lparr>seen_programmes := insert prog_key (seen_programmes s2),
                                      output_handle := output_handle s2 @ [Element e]\<rparr>)
                             else (None, c, s2)))))"

text \<open>
  The body of the \<^verbatim>\<open>for\<close> loop over the end events. An exception of the window tests
  leaves the loop; elements with another tag are passed over.
\<close>

fun parse_loop ::
  "'b world \<Rightarrow> config \<Rightarrow> string set \<Rightarrow> elem list \<Rightarrow> counters \<Rightarrow> run_state
     \<Rightarrow> py_exn option \<times> counters \<times> run_state" where
  "parse_loop w cfg valid_tvg_ids [] c s = (None, c, s)"
| "parse_loop w cfg valid_tvg_ids (e # es) c s =
     (if tag e = ''channel''
      then (case handle_channel valid_tvg_ids e c s of
              (c', s') \<Rightarrow> parse_loop w cfg valid_tvg_ids es c' s')
      else if tag e = ''programme''
      then (case handle_programme w cfg valid_tvg_ids e c s of
              (Some ex, c', s') \<Rightarrow> (Some ex, c', s')
            | (None, c', s') \<Rightarrow> parse_loop w cfg valid_tvg_ids es c' s')
      else parse_loop w cfg valid_tvg_ids es c s)"

text \<open>Lines 224 to 228: the local counters are added to the shared statistics.\<close>

definition update_stats :: "counters \<Rightarrow> stats \<Rightarrow> stats" where
  "update_stats c st =
     st\<lparr>channels_filtered_by_tvg_id := channels_filtered_by_tvg_id st + channels_filtered c,
        programmes_filtered_by_tvg_id :=
          programmes_filtered_by_tvg_id st + programmes_filtered_tvg c,
        programmes_filtered_by_future :=
          programmes_filtered_by_future st + programmes_skipped_future c,
        programmes_filtered_by_past := programmes_filtered_by_past st + programmes_skipped_past c,
        programmes_filtered_by_dummy :=
          programmes_filtered_by_dummy st + programmes_skipped_dummy c\<rparr>"

text \<open>
  \<^verbatim>\<open>ParseError\<close> is caught and the statistics are updated as at the end of a document.
  Any other exception leaves the function before that update.
\<close>

definition stream_parse_epg ::
  "'b world \<Rightarrow> config \<Rightarrow> 'b \<Rightarrow> string set \<Rightarrow> run_state \<Rightarrow> py_exn option \<times> run_state" where
  "stream_parse_epg w cfg file_obj valid_tvg_ids s =
     (case iterparse w file_obj of
        (events, ending) \<Rightarrow>
          (case parse_loop w cfg valid_tvg_ids events counters0 s of
             (Some ex, c, s') \<Rightarrow> (Some ex, s')
           | (None, c, s') \<Rightarrow>
               if ending = ReadFailure then (Some ReadError, s')
               else (None, s'\<lparr>stats := update_stats c (stats s')\<rparr>)))"

subsection \<open>One source, and the run\<close>

text \<open>A source of the list: its url and what the network does at each attempt.\<close>

record 'b source =
  url :: string
  net :: "int \<Rightarrow> 'b outcome"

definition endswith :: "string \<Rightarrow> string \<Rightarrow> bool" where
  "endswith s suf = suffix suf s"

text \<open>
  \<^verbatim>\<open>except Exception\<close> swallows whatever \<^verbatim>\<open>stream_parse_epg\<close> raises; what was
  written and recorded before stays.
\<close>

definition process_epg_source ::
  "'b world \<Rightarrow> config \<Rightarrow> 'b source \<Rightarrow> string set \<Rightarrow> run_state \<Rightarrow> run_state" where
  "process_epg_source w cfg src valid_tvg_ids s =
     (case fst (fetch_with_retry cfg (net src) (url src) 60) of
        None \<Rightarrow> s
      | Some response \<Rightarrow>
          if endswith (url src) ''.gz''
          then snd (stream_parse_epg w cfg (GzipFile w (raw response)) valid_tvg_ids s)
          else snd (stream_parse_epg w cfg (raw response) valid_tvg_ids s))"

definition write_xml_header :: "run_state \<Rightarrow> run_state" where
  "write_xml_header s =
     s\<lparr>output_handle := output_handle s @
         [Text (''<?xml version=\"1.0\" encoding=\"utf-8\"?>'' @ [CHR 0x0A]),
          Text (''<tv>'' @ [CHR 0x0A])]\<rparr>"

definition write_xml_footer :: "run_state \<Rightarrow> run_state" where
  "write_xml_footer s = s\<lparr>output_handle := output_handle s @ [Text (''</tv>'' @ [CHR 0x0A])]\<rparr>"

definition stats0 :: stats where
  "stats0 =
     \<lparr>total_channels_in_sources = 0, total_programmes_in_sources = 0,
      channels_filtered_by_tvg_id = 0, programmes_filtered_by_tvg_id = 0,
      programmes_filtered_by_future = 0, programmes_filtered_by_past = 0,
      programmes_filtered_by_dummy = 0\<rparr>"

definition state0 :: run_state where
  "state0 =
     \<lparr>output_handle = [], seen_channels = {}, seen_programmes = {}, stats = stats0, now_calls = 0\<rparr>"

text \<open>The \<^verbatim>\<open>for url in epg_urls\<close> loop.\<close>

fun process_sources ::
  "'b world \<Rightarrow> config \<Rightarrow> string set \<Rightarrow> 'b source list \<Rightarrow> run_state \<Rightarrow> run_state" where
  "process_sources w cfg valid_tvg_ids [] s = s"
| "process_sources w cfg valid_tvg_ids (src # rest) s =
     process_sources w cfg valid_tvg_ids rest (process_epg_source w cfg src valid_tvg_ids s)"

text \<open>
  \<open>valid_tvg_ids\<close> is the set \<^verbatim>\<open>get_valid_tvg_ids\<close> returned at the first line of the
  function.
\<close>

definition filter_and_build_epg ::
  "'b world \<Rightarrow> config \<Rightarrow> string set \<Rightarrow> 'b source list \<Rightarrow> run_state" where
  "filter_and_build_epg w cfg valid_tvg_ids epg_urls =
     write_xml_footer (process_sources w cfg valid_tvg_ids epg_urls (write_xml_header state0))"

subsection \<open>Reading the output\<close>

text \<open>The elements written, in order, and what identifies them.\<close>

fun written :: "chunk list \<Rightarrow> elem list" where
  "written [] = []"
| "written (Text t # cs) = written cs"
| "written (Element e # cs) = e # written cs"

definition key_of :: "elem \<Rightarrow> string" where
  "key_of e = prog_key (elem_get e ''channel'') (elem_get e ''start'') (elem_get e ''stop'')"

definition chan_ids :: "chunk list \<Rightarrow> string option list" where
  "chan_ids out = map (\<lambda>e. elem_get e ''id'') (filter (\<lambda>e. tag e = ''channel'') (written out))"

definition prog_keys :: "chunk list \<Rightarrow> string list" where
  "prog_keys out = map key_of (filter (\<lambda>e. tag e = ''programme'') (written out))"

definition triple :: "elem \<Rightarrow> string option \<times> string option \<times> string option" where
  "triple e = (elem_get e ''channel'', elem_get e ''start'', elem_get e ''stop'')"

text \<open>
  The invariant of the run: the identifiers of the written channels, and the keys of the
  written programmes, are pairwise different and are in the seen sets.
\<close>

definition dedup_inv :: "run_state \<Rightarrow> bool" where
  "dedup_inv s =
     (distinct (chan_ids (output_handle s)) \<and>
      set (chan_ids (output_handle s)) \<subseteq> seen_channels s \<and>
      distinct (prog_keys (output_handle s)) \<and>
      set (prog_keys (output_handle s)) \<subseteq> seen_programmes s)"

text \<open>Nothing leaves the seen sets, and what was written stays at the front.\<close>

definition grows :: "run_state \<Rightarrow> run_state \<Rightarrow> bool" where
  "grows s s' =
     (seen_channels s \<subseteq> seen_channels s' \<and> seen_programmes s \<subseteq> seen_programmes s' \<and>
      prefix (output_handle s) (output_handle s'))"

text \<open>The five programme buckets together.\<close>

definition bucket_total :: "counters \<Rightarrow> int" where
  "bucket_total c =
     programmes_filtered_tvg c + programmes_skipped_dummy c + programmes_skipped_future c +
     programmes_skipped_past c + programmes_added c"

text \<open>Nothing has been counted as filtered by identifier, locally or in the statistics.\<close>

definition unfiltered :: "counters \<Rightarrow> run_state \<Rightarrow> bool" where
  "unfiltered c s =
     (channels_filtered c = 0 \<and> programmes_filtered_tvg c = 0 \<and>
      channels_filtered_by_tvg_id (stats s) = 0 \<and> programmes_filtered_by_tvg_id (stats s) = 0)"

text \<open>
  For the fetcher: whether an attempt delivers status 200, the trace without the
  closes, and what a failed attempt leaves in the trace.
\<close>

definition succeeds :: "(int \<Rightarrow> 'b outcome) \<Rightarrow> int \<Rightarrow> bool" where
  "succeeds get attempt =
     (case get attempt of Response r \<Rightarrow> status_code r = 200 | _ \<Rightarrow> False)"

definition gets_and_sleeps :: "effect list \<Rightarrow> effect list" where
  "gets_and_sleeps tr = filter (\<lambda>x. x \<noteq> Close) tr"

definition failed_attempt :: "config \<Rightarrow> string \<Rightarrow> int \<Rightarrow> int \<Rightarrow> effect list" where
  "failed_attempt cfg address timeout attempt =
     HttpGet address timeout attempt # after_failure cfg attempt"

text \<open>
  What a source delivers to the parse loop: the events of the stream its fetch returns,
  decompressed when the url ends in \<^verbatim>\<open>.gz\<close>, and how the stream ends; nothing when
  the fetch fails. The loop looks at channel and programme elements only.
\<close>

definition source_stream ::
  "'b world \<Rightarrow> config \<Rightarrow> 'b source \<Rightarrow> (elem list \<times> ending) option" where
  "source_stream w cfg src =
     (case fst (fetch_with_retry cfg (net src) (url src) 60) of
        None \<Rightarrow> None
      | Some response \<Rightarrow>
          Some (iterparse w (if endswith (url src) ''.gz'' then GzipFile w (raw response)
                             else raw response)))"

definition source_events :: "'b world \<Rightarrow> config \<Rightarrow> 'b source \<Rightarrow> elem list" where
  "source_events w cfg src =
     (case source_stream w cfg src of None \<Rightarrow> [] | Some (events, ending) \<Rightarrow> events)"

definition is_guide_element :: "elem \<Rightarrow> bool" where
  "is_guide_element e = (tag e = ''channel'' \<or> tag e = ''programme'')"

text \<open>
  The order C5 words: zero or more channel elements, followed by zero or more programme
  elements.
\<close>

definition channels_then_programmes :: "elem list \<Rightarrow> bool" where
  "channels_then_programmes es =
     list_all (\<lambda>e. tag e = ''programme'') (dropWhile (\<lambda>e. tag e = ''channel'') es)"

text \<open>The text of the output file.\<close>

definition document :: "run_state \<Rightarrow> string" where
  "document s = concat (map chunk_text (output_handle s))"

section \<open>A small world for the examples\<close>

text \<open>
  Two sources that deliver the same channel and the same programme, on 2026-11-04 at
  noon. The table gives \<^verbatim>\<open>strptime\<close> on the timestamps the examples use; a stream
  stands for the events the parser yields from it.
\<close>

definition example_world :: "(elem list \<times> ending) world" where
  "example_world =
     \<lparr>strptime = map_of
        [(''20261101120000'', 63929131200000000),
         (''20261104120000'', 63929390400000000),
         (''20261104130000'', 63929394000000000),
         (''20261110120000'', 63929908800000000)],
      datetime_now = (\<lambda>n. 63929390400000000 + int n * 1000000),
      iterparse = (\<lambda>f. f),
      GzipFile = (\<lambda>f. f)\<rparr>"

definition channel_a :: elem where
  "channel_a =
     \<lparr>tag = ''channel'', attrib = [(''id'', ''a.tv'')],
      serialized = ''<channel id=\"a.tv\"><display-name>A</display-name></channel>''\<rparr>"

definition programme_a :: elem where
  "programme_a =
     \<lparr>tag = ''programme'',
      attrib = [(''start'', ''20261104120000 +0000''), (''stop'', ''20261104130000 +0000''),
                (''channel'', ''a.tv'')],
      serialized = ''<programme start=\"20261104120000 +0000\" stop=\"20261104130000 +0000\" channel=\"a.tv\"><title>News</title></programme>''\<rparr>"

definition always_ok :: "elem list \<times> ending \<Rightarrow> int \<Rightarrow> (elem list \<times> ending) outcome" where
  "always_ok body attempt = Response \<lparr>status_code = 200, raw = body\<rparr>"

definition source_one :: "(elem list \<times> ending) source" where
  "source_one = \<lparr>url = ''http://one.example/epg.xml'',
                  net = always_ok ([channel_a, programme_a], Eof)\<rparr>"

definition source_two :: "(elem list \<times> ending) source" where
  "source_two = \<lparr>url = ''http://two.example/epg.xml.gz'',
                  net = always_ok ([channel_a, programme_a], Eof)\<rparr>"

definition strict_config :: config where
  "strict_config =
     \<lparr>days_future = 5, days_past = 1, skip_dummy_programs = True,
      max_retries = 5, retry_delay = 5\<rparr>"

definition programme_dummy_old :: elem where
  "programme_dummy_old =
     \<lparr>tag = ''programme'',
      attrib = [(''start'', ''20261101120000 +0000''), (''stop'', ''20261101120000 +0000''),
                (''channel'', ''Dummy1'')],
      serialized = ''<programme start=\"20261101120000 +0000\" stop=\"20261101120000 +0000\" channel=\"Dummy1\"><title>Filler</title></programme>''\<rparr>"




definition no_content :: "int \<Rightarrow> (elem list \<times> ending) outcome" where
  "no_content attempt = Response \<lparr>status_code = 204, raw = ([], Eof)\<rparr>"

definition fifth_time_lucky :: "int \<Rightarrow> (elem list \<times> ending) outcome" where
  "fifth_time_lucky attempt =
     (if attempt = 1 then Timeout
      else if attempt = 2 then ConnectionError
      else if attempt = 3 then Response \<lparr>status_code = 503, raw = ([], Eof)\<rparr>
      else if attempt = 4 then RequestException
      else Response \<lparr>status_code = 200, raw = ([channel_a], Eof)\<rparr>)"

definition channel_b :: elem where
  "channel_b =
     \<lparr>tag = ''channel'', attrib = [(''id'', ''b.tv'')],
      serialized = ''<channel id=\"b.tv\"><display-name>B</display-name></channel>''\<rparr>"

definition programme_b :: elem where
  "programme_b =
     \<lparr>tag = ''programme'',
      attrib = [(''start'', ''20261104120000 +0000''), (''stop'', ''20261104130000 +0000''),
                (''channel'', ''b.tv'')],
      serialized = ''<programme start=\"20261104120000 +0000\" stop=\"20261104130000 +0000\" channel=\"b.tv\"><title>Film</title></programme>''\<rparr>"

definition source_b :: "(elem list \<times> ending) source" where
  "source_b = \<lparr>url = ''http://b.example/guide.xml'',
                net = always_ok ([channel_b, programme_b], Eof)\<rparr>"


text \<open>
  Two texts for the repair function: a guide printed with one element per line and two
  spaces of indentation, and one with a doubly escaped ampersand, whitespace between two
  programme elements and a control character.
\<close>

definition indented_guide :: string where
  "indented_guide = ''</programme>'' @ [CHR 0x0A] @ ''  <programme''"

definition garbled_guide :: string where
  "garbled_guide =
     ''<title>A &amp;amp; B</title></programme>'' @ [CHR 0x0A, CHR 0x20] @
     ''<programme>'' @ [CHR 0x07] @ ''<title>C</title></programme>''"

section \<open>Properties\<close>

subsection \<open>What one element does to the shared state\<close>

lemma written_append: "written (xs @ ys) = written xs @ written ys"
  by (induction xs rule: written.induct) simp_all

lemma chan_ids_snoc:
  "chan_ids (out @ [Element e]) =
     chan_ids out @ (if tag e = ''channel'' then [elem_get e ''id''] else [])"
  by (simp add: chan_ids_def written_append)

lemma prog_keys_snoc:
  "prog_keys (out @ [Element e]) =
     prog_keys out @ (if tag e = ''programme'' then [key_of e] else [])"
  by (simp add: prog_keys_def written_append)

lemma handle_channel_state:
  assumes "handle_channel valid e c s = (c', s')"
  shows "seen_programmes s' = seen_programmes s \<and> now_calls s' = now_calls s \<and>
     (output_handle s' = output_handle s \<and> seen_channels s' = seen_channels s
      \<or> elem_get e ''id'' \<notin> seen_channels s \<and>
        seen_channels s' = insert (elem_get e ''id'') (seen_channels s) \<and>
        output_handle s' = output_handle s @ [Element e])"
  using assms
  unfolding handle_channel_def Let_def
  by (auto split: if_splits)

lemma handle_programme_state:
  assumes "handle_programme w cfg valid e c s = (r, c', s')"
  shows "seen_channels s' = seen_channels s \<and>
     (output_handle s' = output_handle s \<and> seen_programmes s' = seen_programmes s
      \<or> r = None \<and> key_of e \<notin> seen_programmes s \<and>
        seen_programmes s' = insert (key_of e) (seen_programmes s) \<and>
        output_handle s' = output_handle s @ [Element e])"
  using assms
  unfolding handle_programme_def key_of_def Let_def
  by (auto split: if_splits prod.splits sum.splits)

lemma parse_loop_preserves:
  assumes ch: "\<And>e c s c' s'. tag e = ''channel'' \<Longrightarrow> P c s
                 \<Longrightarrow> handle_channel valid e c s = (c', s') \<Longrightarrow> P c' s'"
    and pr: "\<And>e c s r c' s'. tag e = ''programme'' \<Longrightarrow> P c s
                 \<Longrightarrow> handle_programme w cfg valid e c s = (r, c', s') \<Longrightarrow> P c' s'"
  shows "P c s \<Longrightarrow> parse_loop w cfg valid es c s = (r, c', s') \<Longrightarrow> P c' s'"
proof (induction es arbitrary: c s)
  case Nil
  then show ?case by simp
next
  case (Cons e es)
  show ?case
  proof (cases "tag e = ''channel''")
    case True
    obtain c1 s1 where h: "handle_channel valid e c s = (c1, s1)"
      by (cases "handle_channel valid e c s")
    from ch [OF True Cons.prems(1) h] have "P c1 s1" .
    moreover from Cons.prems(2) True h
    have "parse_loop w cfg valid es c1 s1 = (r, c', s')" by simp
    ultimately show ?thesis by (rule Cons.IH)
  next
    case False
    note not_channel = this
    show ?thesis
    proof (cases "tag e = ''programme''")
      case True
      obtain r1 c1 s1 where h: "handle_programme w cfg valid e c s = (r1, c1, s1)"
        by (cases "handle_programme w cfg valid e c s")
      from pr [OF True Cons.prems(1) h] have p1: "P c1 s1" .
      show ?thesis
      proof (cases r1)
        case None
        with Cons.prems(2) not_channel True h
        have "parse_loop w cfg valid es c1 s1 = (r, c', s')" by simp
        with p1 show ?thesis by (rule Cons.IH)
      next
        case (Some ex)
        with Cons.prems(2) not_channel True h have "c' = c1" "s' = s1" by simp_all
        with p1 show ?thesis by simp
      qed
    next
      case False
      with Cons.prems(2) not_channel
      have "parse_loop w cfg valid es c s = (r, c', s')" by simp
      with Cons.prems(1) show ?thesis by (rule Cons.IH)
    qed
  qed
qed

lemma dedup_inv_channel:
  assumes "tag e = ''channel''" "dedup_inv s" "handle_channel valid e c s = (c', s')"
  shows "dedup_inv s'"
  using handle_channel_state [OF assms(3)] assms(1,2)
  by (auto simp: dedup_inv_def chan_ids_snoc prog_keys_snoc)

lemma dedup_inv_programme:
  assumes "tag e = ''programme''" "dedup_inv s"
    "handle_programme w cfg valid e c s = (r, c', s')"
  shows "dedup_inv s'"
  using handle_programme_state [OF assms(3)] assms(1,2)
  by (auto simp: dedup_inv_def chan_ids_snoc prog_keys_snoc)

lemma grows_refl: "grows s s"
  by (simp add: grows_def)

lemma grows_trans: "grows s s' \<Longrightarrow> grows s' s'' \<Longrightarrow> grows s s''"
  unfolding grows_def by (meson order_trans prefix_order.order_trans)

lemma grows_channel:
  assumes "handle_channel valid e c s = (c', s')"
  shows "grows s s'"
  using handle_channel_state [OF assms] by (auto simp: grows_def)

lemma grows_programme:
  assumes "handle_programme w cfg valid e c s = (r, c', s')"
  shows "grows s s'"
  using handle_programme_state [OF assms] by (auto simp: grows_def)

lemma parse_loop_dedup_inv:
  assumes "dedup_inv s" "parse_loop w cfg valid es c s = (r, c', s')"
  shows "dedup_inv s'"
  using assms
  by (rule parse_loop_preserves [where P = "\<lambda>c. dedup_inv", rotated 2])
    (erule (2) dedup_inv_channel, erule (2) dedup_inv_programme)

lemma parse_loop_grows:
  assumes "parse_loop w cfg valid es c s = (r, c', s')"
  shows "grows s s'"
proof -
  have "grows s s" by (rule grows_refl)
  then show ?thesis using assms
    by (rule parse_loop_preserves [where P = "\<lambda>c. grows s", rotated 2])
      (blast intro: grows_trans grows_channel grows_programme)+
qed

lemma stream_parse_epg_state:
  obtains r c s1 where "parse_loop w cfg valid (fst (iterparse w f)) counters0 s = (r, c, s1)"
    and "snd (stream_parse_epg w cfg f valid s) = s1
       \<or> snd (stream_parse_epg w cfg f valid s) = s1\<lparr>stats := update_stats c (stats s1)\<rparr>"
proof -
  obtain r c s1 where h: "parse_loop w cfg valid (fst (iterparse w f)) counters0 s = (r, c, s1)"
    by (cases "parse_loop w cfg valid (fst (iterparse w f)) counters0 s")
  then have "snd (stream_parse_epg w cfg f valid s) = s1
       \<or> snd (stream_parse_epg w cfg f valid s) = s1\<lparr>stats := update_stats c (stats s1)\<rparr>"
    by (cases "iterparse w f"; cases r) (auto simp: stream_parse_epg_def)
  with h show thesis by (rule that)
qed

lemma dedup_inv_stats [simp]: "dedup_inv (s\<lparr>stats := st\<rparr>) = dedup_inv s"
  by (simp add: dedup_inv_def)

lemma grows_stats [simp]: "grows s (s'\<lparr>stats := st\<rparr>) = grows s s'"
  by (simp add: grows_def)

lemma stream_parse_epg_dedup_inv:
  assumes "dedup_inv s"
  shows "dedup_inv (snd (stream_parse_epg w cfg f valid s))"
proof -
  obtain r c s1 where "parse_loop w cfg valid (fst (iterparse w f)) counters0 s = (r, c, s1)"
    and "snd (stream_parse_epg w cfg f valid s) = s1
       \<or> snd (stream_parse_epg w cfg f valid s) = s1\<lparr>stats := update_stats c (stats s1)\<rparr>"
    by (rule stream_parse_epg_state)
  with parse_loop_dedup_inv [OF assms] show ?thesis by auto
qed

lemma stream_parse_epg_grows: "grows s (snd (stream_parse_epg w cfg f valid s))"
proof -
  obtain r c s1 where "parse_loop w cfg valid (fst (iterparse w f)) counters0 s = (r, c, s1)"
    and "snd (stream_parse_epg w cfg f valid s) = s1
       \<or> snd (stream_parse_epg w cfg f valid s) = s1\<lparr>stats := update_stats c (stats s1)\<rparr>"
    by (rule stream_parse_epg_state)
  with parse_loop_grows show ?thesis by auto
qed

lemma process_epg_source_dedup_inv:
  "dedup_inv s \<Longrightarrow> dedup_inv (process_epg_source w cfg src valid s)"
  by (simp add: process_epg_source_def stream_parse_epg_dedup_inv split: option.splits)

lemma process_epg_source_grows: "grows s (process_epg_source w cfg src valid s)"
  by (simp add: process_epg_source_def stream_parse_epg_grows grows_refl split: option.splits)

lemma process_sources_dedup_inv:
  "dedup_inv s \<Longrightarrow> dedup_inv (process_sources w cfg valid srcs s)"
  by (induction srcs arbitrary: s) (simp_all add: process_epg_source_dedup_inv)

lemma process_sources_grows: "grows s (process_sources w cfg valid srcs s)"
proof (induction srcs arbitrary: s)
  case Nil
  show ?case by (simp add: grows_refl)
next
  case (Cons src srcs)
  have "grows s (process_epg_source w cfg src valid s)"
    by (rule process_epg_source_grows)
  then show ?case
    using Cons.IH by (auto intro: grows_trans)
qed

lemma chan_ids_Text: "chan_ids (out @ [Text t]) = chan_ids out"
  by (simp add: chan_ids_def written_append)

lemma prog_keys_Text: "prog_keys (out @ [Text t]) = prog_keys out"
  by (simp add: prog_keys_def written_append)

lemma dedup_inv_header: "dedup_inv (write_xml_header state0)"
  by (simp add: dedup_inv_def write_xml_header_def state0_def chan_ids_def prog_keys_def)

lemma dedup_inv_footer: "dedup_inv s \<Longrightarrow> dedup_inv (write_xml_footer s)"
  by (simp add: dedup_inv_def write_xml_footer_def chan_ids_Text prog_keys_Text)

lemma dedup_inv_run: "dedup_inv (filter_and_build_epg w cfg valid srcs)"
  unfolding filter_and_build_epg_def
  by (intro dedup_inv_footer process_sources_dedup_inv dedup_inv_header)

lemma distinct_map_key:
  assumes "distinct (map (\<lambda>x. f (g x)) xs)"
  shows "distinct (map g xs)"
  using assms by (induction xs) auto

subsection \<open>Deduplication\<close>

text \<open>
  C2. In the output of any run, no two channel elements have the same \<open>id\<close> and no two
  programme elements the same (channel, start, stop); and the two seen sets only grow,
  over the sources of a run and over the elements of a source.
\<close>

theorem no_duplicates_in_output:
  "distinct (map (\<lambda>e. elem_get e ''id'')
      (filter (\<lambda>e. tag e = ''channel'')
        (written (output_handle (filter_and_build_epg w cfg valid srcs))))) \<and>
   distinct (map triple
      (filter (\<lambda>e. tag e = ''programme'')
        (written (output_handle (filter_and_build_epg w cfg valid srcs))))) \<and>
   seen_channels s \<subseteq> seen_channels (process_sources w cfg valid srcs s) \<and>
   seen_programmes s \<subseteq> seen_programmes (process_sources w cfg valid srcs s) \<and>
   seen_channels s \<subseteq> seen_channels (snd (snd (parse_loop w cfg valid es c s))) \<and>
   seen_programmes s \<subseteq> seen_programmes (snd (snd (parse_loop w cfg valid es c s)))"
proof -
  let ?out = "output_handle (filter_and_build_epg w cfg valid srcs)"
  have inv: "dedup_inv (filter_and_build_epg w cfg valid srcs)"
    by (rule dedup_inv_run)
  then have "distinct (chan_ids ?out)"
    by (simp add: dedup_inv_def)
  then have ch: "distinct (map (\<lambda>e. elem_get e ''id'')
      (filter (\<lambda>e. tag e = ''channel'') (written ?out)))"
    by (simp add: chan_ids_def)
  from inv have "distinct (prog_keys ?out)"
    by (simp add: dedup_inv_def)
  moreover have "key_of = (\<lambda>e. (\<lambda>(a, b, c). prog_key a b c) (triple e))"
    by (simp add: fun_eq_iff key_of_def triple_def)
  ultimately have "distinct (map (\<lambda>e. (\<lambda>(a, b, c). prog_key a b c) (triple e))
      (filter (\<lambda>e. tag e = ''programme'') (written ?out)))"
    by (simp add: prog_keys_def)
  then have pr: "distinct (map triple (filter (\<lambda>e. tag e = ''programme'') (written ?out)))"
    by (rule distinct_map_key)
  have g1: "grows s (process_sources w cfg valid srcs s)"
    by (rule process_sources_grows)
  have g2: "grows s (snd (snd (parse_loop w cfg valid es c s)))"
    by (cases "parse_loop w cfg valid es c s") (auto dest: parse_loop_grows)
  from ch pr g1 g2 show ?thesis
    by (simp add: grows_def)
qed



theorem no_duplicates_in_output_witness:
  "written (output_handle (filter_and_build_epg example_world default_config {}
      [source_one, source_two])) = [channel_a, programme_a] \<and>
   distinct (map triple (filter (\<lambda>e. tag e = ''programme'')
      (written (output_handle (filter_and_build_epg example_world default_config {}
        [source_one, source_two])))))"
proof -
  have "written (output_handle (filter_and_build_epg example_world default_config {}
      [source_one, source_two])) = [channel_a, programme_a]"
    by code_simp
  then show ?thesis
    using no_duplicates_in_output [of example_world default_config "{}"
        "[source_one, source_two]"]
    by simp
qed

subsection \<open>The empty allow-list\<close>

lemma handle_channel_stats:
  assumes "handle_channel valid e c s = (c', s')"
  shows "stats s' = (stats s)\<lparr>total_channels_in_sources :=
            total_channels_in_sources (stats s) + 1\<rparr>"
  using assms unfolding handle_channel_def Let_def
  by (auto split: if_splits)

lemma handle_programme_stats:
  assumes "handle_programme w cfg valid e c s = (r, c', s')"
  shows "stats s' = (stats s)\<lparr>total_programmes_in_sources :=
            total_programmes_in_sources (stats s) + 1\<rparr>"
  using assms unfolding handle_programme_def Let_def
  by (auto split: if_splits prod.splits sum.splits)

lemma not_allowed_empty: "\<not> not_allowed {} tvg_id"
  by (simp add: not_allowed_def)

lemma handle_channel_empty:
  assumes "handle_channel {} e c s = (c', s')"
  shows "channels_filtered c' = channels_filtered c \<and>
         programmes_filtered_tvg c' = programmes_filtered_tvg c \<and>
         elem_get e ''id'' \<in> seen_channels s'"
  using assms unfolding handle_channel_def Let_def
  by (auto simp: not_allowed_empty split: if_splits)

lemma handle_programme_empty:
  assumes "handle_programme w cfg {} e c s = (r, c', s')"
  shows "channels_filtered c' = channels_filtered c \<and>
         programmes_filtered_tvg c' = programmes_filtered_tvg c"
  using assms unfolding handle_programme_def Let_def
  by (auto simp: not_allowed_empty split: if_splits prod.splits sum.splits)

lemma parse_loop_unfiltered:
  assumes "unfiltered c s" "parse_loop w cfg {} es c s = (r, c', s')"
  shows "unfiltered c' s'"
  using assms
proof (rule parse_loop_preserves [where P = unfiltered, rotated 2])
  fix e c s c' s'
  assume "unfiltered c s" "handle_channel {} e c s = (c', s')"
  then show "unfiltered c' s'"
    using handle_channel_empty [of e c s c' s'] handle_channel_stats [of "{}" e c s c' s']
    by (simp add: unfiltered_def)
next
  fix e c s r c' s'
  assume "unfiltered c s" "handle_programme w cfg {} e c s = (r, c', s')"
  then show "unfiltered c' s'"
    using handle_programme_empty [of w cfg e c s r c' s']
      handle_programme_stats [of w cfg "{}" e c s r c' s']
    by (simp add: unfiltered_def)
qed

lemma stream_parse_epg_unfiltered:
  assumes "unfiltered counters0 s"
  shows "unfiltered counters0 (snd (stream_parse_epg w cfg f {} s))"
proof -
  obtain r c s1 where h: "parse_loop w cfg {} (fst (iterparse w f)) counters0 s = (r, c, s1)"
    and "snd (stream_parse_epg w cfg f {} s) = s1
       \<or> snd (stream_parse_epg w cfg f {} s) = s1\<lparr>stats := update_stats c (stats s1)\<rparr>"
    by (rule stream_parse_epg_state)
  moreover from parse_loop_unfiltered [OF assms h] have "unfiltered c s1" .
  ultimately show ?thesis
    by (auto simp: unfiltered_def update_stats_def counters0_def)
qed

lemma process_epg_source_unfiltered:
  "unfiltered counters0 s \<Longrightarrow> unfiltered counters0 (process_epg_source w cfg src {} s)"
  by (simp add: process_epg_source_def stream_parse_epg_unfiltered split: option.splits)

lemma process_sources_unfiltered:
  "unfiltered counters0 s \<Longrightarrow> unfiltered counters0 (process_sources w cfg {} srcs s)"
  by (induction srcs arbitrary: s) (simp_all add: process_epg_source_unfiltered)

lemma unfiltered_header: "unfiltered counters0 (write_xml_header state0)"
  by (simp add: unfiltered_def counters0_def write_xml_header_def state0_def stats0_def)

text \<open>
  C3. With an empty allow-list the membership test is false for every identifier, the
  two filtered-by-identifier statistics are 0 after any number of sources and at the end
  of the run, no element moves the two local filtered-by-identifier counters, and every
  channel element ends in the seen set: it is written, or it was written before.
\<close>

theorem empty_allow_list_filters_nothing:
  "\<not> not_allowed {} tvg_id \<and>
   channels_filtered_by_tvg_id
     (stats (process_sources w cfg {} srcs (write_xml_header state0))) = 0 \<and>
   programmes_filtered_by_tvg_id
     (stats (process_sources w cfg {} srcs (write_xml_header state0))) = 0 \<and>
   channels_filtered_by_tvg_id (stats (filter_and_build_epg w cfg {} srcs)) = 0 \<and>
   programmes_filtered_by_tvg_id (stats (filter_and_build_epg w cfg {} srcs)) = 0 \<and>
   elem_get e ''id'' \<in> seen_channels (snd (handle_channel {} e c s)) \<and>
   channels_filtered (fst (handle_channel {} e c s)) = channels_filtered c \<and>
   programmes_filtered_tvg (fst (snd (handle_programme w cfg {} e c s))) =
     programmes_filtered_tvg c"
proof -
  have "unfiltered counters0 (process_sources w cfg {} srcs (write_xml_header state0))"
    by (intro process_sources_unfiltered unfiltered_header)
  then have run: "channels_filtered_by_tvg_id
       (stats (process_sources w cfg {} srcs (write_xml_header state0))) = 0"
    "programmes_filtered_by_tvg_id
       (stats (process_sources w cfg {} srcs (write_xml_header state0))) = 0"
    by (simp_all add: unfiltered_def)
  have "elem_get e ''id'' \<in> seen_channels (snd (handle_channel {} e c s))"
    "channels_filtered (fst (handle_channel {} e c s)) = channels_filtered c"
    using handle_channel_empty [of e c s] by (cases "handle_channel {} e c s"; simp)+
  moreover
  have "programmes_filtered_tvg (fst (snd (handle_programme w cfg {} e c s))) =
     programmes_filtered_tvg c"
    using handle_programme_empty [of w cfg e c s]
    by (cases "handle_programme w cfg {} e c s") simp
  ultimately show ?thesis
    using run
    by (simp add: not_allowed_empty filter_and_build_epg_def write_xml_footer_def)
qed

theorem empty_allow_list_filters_nothing_witness:
  "stats (filter_and_build_epg example_world default_config {} [source_one, source_two]) =
     \<lparr>total_channels_in_sources = 2, total_programmes_in_sources = 2,
      channels_filtered_by_tvg_id = 0, programmes_filtered_by_tvg_id = 0,
      programmes_filtered_by_future = 0, programmes_filtered_by_past = 0,
      programmes_filtered_by_dummy = 0\<rparr>"
proof -
  have "total_channels_in_sources
      (stats (filter_and_build_epg example_world default_config {} [source_one, source_two])) = 2"
    "total_programmes_in_sources
      (stats (filter_and_build_epg example_world default_config {} [source_one, source_two])) = 2"
    "programmes_filtered_by_future
      (stats (filter_and_build_epg example_world default_config {} [source_one, source_two])) = 0"
    "programmes_filtered_by_past
      (stats (filter_and_build_epg example_world default_config {} [source_one, source_two])) = 0"
    "programmes_filtered_by_dummy
      (stats (filter_and_build_epg example_world default_config {} [source_one, source_two])) = 0"
    by code_simp+
  then show ?thesis
    using empty_allow_list_filters_nothing [where w = example_world and cfg = default_config
        and srcs = "[source_one, source_two]"]
    by (cases "stats (filter_and_build_epg example_world default_config {}
        [source_one, source_two])") simp
qed

subsection \<open>The order of the programme filters\<close>

lemma is_dummy_programme_iff:
  "is_dummy_programme cfg tvg_id =
     (skip_dummy_programs cfg \<and> (\<exists>i. tvg_id = Some i \<and> contains ''dummy'' (map lower_char i)))"
  by (cases tvg_id) (auto simp: is_dummy_programme_def)

text \<open>
  C1. One programme element goes through the tests in this order, and the first that
  holds decides: not in a non-empty allow-list, dummy, too far in the future, too far in
  the past, and only then the seen set. In each case the element counter and exactly the
  one named counter go up by one and nothing is written; a programme that passes all
  four and is new is written and counted as added; one that passes all four and is
  already seen changes no bucket. So the sum of the five buckets goes up by exactly one,
  except for a duplicate and for a window test that raises, and no bucket ever goes
  down. The dummy test is: suppression is on and the lower-cased identifier contains
  \<^verbatim>\<open>dummy\<close>. At the end of the source each of the four filter counters is added to
  the statistic of its name.
\<close>

theorem programme_filters_in_order:
  assumes run: "handle_programme w cfg valid e c s = (r, c', s')"
    and fut: "is_programme_too_far_future w (elem_get e ''start'') (days_future cfg)
                (now_calls s) = (f, k)"
    and past: "is_programme_too_far_past w (elem_get e ''stop'') (days_past cfg) k = (p, k')"
  shows
    "(not_allowed valid (elem_get e ''channel'') \<longrightarrow>
        r = None \<and> output_handle s' = output_handle s \<and>
        c' = c\<lparr>prog_count := prog_count c + 1,
               programmes_filtered_tvg := programmes_filtered_tvg c + 1\<rparr>) \<and>
     (\<not> not_allowed valid (elem_get e ''channel'') \<and>
      is_dummy_programme cfg (elem_get e ''channel'') \<longrightarrow>
        r = None \<and> output_handle s' = output_handle s \<and>
        c' = c\<lparr>prog_count := prog_count c + 1,
               programmes_skipped_dummy := programmes_skipped_dummy c + 1\<rparr>) \<and>
     (\<not> not_allowed valid (elem_get e ''channel'') \<and>
      \<not> is_dummy_programme cfg (elem_get e ''channel'') \<and> f = Inr True \<longrightarrow>
        r = None \<and> output_handle s' = output_handle s \<and>
        c' = c\<lparr>prog_count := prog_count c + 1,
               programmes_skipped_future := programmes_skipped_future c + 1\<rparr>) \<and>
     (\<not> not_allowed valid (elem_get e ''channel'') \<and>
      \<not> is_dummy_programme cfg (elem_get e ''channel'') \<and> f = Inr False \<and> p = Inr True \<longrightarrow>
        r = None \<and> output_handle s' = output_handle s \<and>
        c' = c\<lparr>prog_count := prog_count c + 1,
               programmes_skipped_past := programmes_skipped_past c + 1\<rparr>) \<and>
     (\<not> not_allowed valid (elem_get e ''channel'') \<and>
      \<not> is_dummy_programme cfg (elem_get e ''channel'') \<and> f = Inr False \<and> p = Inr False \<and>
      key_of e \<notin> seen_programmes s \<longrightarrow>
        r = None \<and> output_handle s' = output_handle s @ [Element e] \<and>
        c' = c\<lparr>prog_count := prog_count c + 1,
               programmes_added := programmes_added c + 1\<rparr>) \<and>
     (\<not> not_allowed valid (elem_get e ''channel'') \<and>
      \<not> is_dummy_programme cfg (elem_get e ''channel'') \<and> f = Inr False \<and> p = Inr False \<and>
      key_of e \<in> seen_programmes s \<longrightarrow>
        r = None \<and> output_handle s' = output_handle s \<and>
        c' = c\<lparr>prog_count := prog_count c + 1\<rparr>) \<and>
     bucket_total c' =
       bucket_total c +
       (if r = None \<and>
           \<not> (\<not> not_allowed valid (elem_get e ''channel'') \<and>
              \<not> is_dummy_programme cfg (elem_get e ''channel'') \<and>
              f = Inr False \<and> p = Inr False \<and> key_of e \<in> seen_programmes s)
        then 1 else 0) \<and>
     programmes_filtered_tvg c \<le> programmes_filtered_tvg c' \<and>
     programmes_skipped_dummy c \<le> programmes_skipped_dummy c' \<and>
     programmes_skipped_future c \<le> programmes_skipped_future c' \<and>
     programmes_skipped_past c \<le> programmes_skipped_past c' \<and>
     programmes_added c \<le> programmes_added c' \<and>
     is_dummy_programme cfg (elem_get e ''channel'') =
       (skip_dummy_programs cfg \<and>
        (\<exists>i. elem_get e ''channel'' = Some i \<and> contains ''dummy'' (map lower_char i))) \<and>
     programmes_filtered_by_tvg_id (update_stats c' st) =
       programmes_filtered_by_tvg_id st + programmes_filtered_tvg c' \<and>
     programmes_filtered_by_dummy (update_stats c' st) =
       programmes_filtered_by_dummy st + programmes_skipped_dummy c' \<and>
     programmes_filtered_by_future (update_stats c' st) =
       programmes_filtered_by_future st + programmes_skipped_future c' \<and>
     programmes_filtered_by_past (update_stats c' st) =
       programmes_filtered_by_past st + programmes_skipped_past c'"
proof -
  have stats: "programmes_filtered_by_tvg_id (update_stats c' st) =
       programmes_filtered_by_tvg_id st + programmes_filtered_tvg c'"
    "programmes_filtered_by_dummy (update_stats c' st) =
       programmes_filtered_by_dummy st + programmes_skipped_dummy c'"
    "programmes_filtered_by_future (update_stats c' st) =
       programmes_filtered_by_future st + programmes_skipped_future c'"
    "programmes_filtered_by_past (update_stats c' st) =
       programmes_filtered_by_past st + programmes_skipped_past c'"
    by (simp_all add: update_stats_def)
  show ?thesis
    using assms
    unfolding handle_programme_def key_of_def Let_def bucket_total_def stats
      is_dummy_programme_iff [symmetric]
    by (auto split: if_splits sum.splits)
qed


theorem programme_filters_in_order_witness:
  "not_allowed {''a.tv''} (elem_get programme_dummy_old ''channel'') \<and>
   is_dummy_programme strict_config (elem_get programme_dummy_old ''channel'') \<and>
   is_programme_too_far_past example_world (elem_get programme_dummy_old ''stop'')
     (days_past strict_config) 1 = (Inr True, 2) \<and>
   fst (snd (handle_programme example_world strict_config {''a.tv''} programme_dummy_old
     counters0 state0)) = counters0\<lparr>prog_count := 1, programmes_filtered_tvg := 1\<rparr>"
proof -
  obtain r c' s' where run:
    "handle_programme example_world strict_config {''a.tv''} programme_dummy_old
       counters0 state0 = (r, c', s')"
    by (cases "handle_programme example_world strict_config {''a.tv''} programme_dummy_old
       counters0 state0")
  have fut: "is_programme_too_far_future example_world (elem_get programme_dummy_old ''start'')
      (days_future strict_config) (now_calls state0) = (Inr False, 1)"
    by code_simp
  have past: "is_programme_too_far_past example_world (elem_get programme_dummy_old ''stop'')
      (days_past strict_config) 1 = (Inr True, 2)"
    by code_simp
  have na: "not_allowed {''a.tv''} (elem_get programme_dummy_old ''channel'')"
    by code_simp
  have dummy: "is_dummy_programme strict_config (elem_get programme_dummy_old ''channel'')"
    by code_simp
  from programme_filters_in_order [OF run fut past] na
  have "c' = counters0\<lparr>prog_count := prog_count counters0 + 1,
               programmes_filtered_tvg := programmes_filtered_tvg counters0 + 1\<rparr>"
    by blast
  then have "c' = counters0\<lparr>prog_count := 1, programmes_filtered_tvg := 1\<rparr>"
    by (simp add: counters0_def)
  with run na dummy past show ?thesis
    by simp
qed

subsection \<open>Timestamps and the two windows\<close>

text \<open>
  C7. A missing or empty timestamp does not parse; parsing looks at the first 14
  characters only, so an offset after them is ignored. When the timestamp does not
  parse, both window tests answer no without reading the clock, and the programme is not
  counted as skipped for the future (its start) or for the past (its stop).
\<close>

theorem unparseable_time_never_filters:
  "parse_xmltv_time w None = None \<and>
   parse_xmltv_time w (Some []) = None \<and>
   parse_xmltv_time w (Some ts) = parse_xmltv_time w (Some (take 14 ts)) \<and>
   (parse_xmltv_time w time_str = None \<longrightarrow>
      is_programme_too_far_future w time_str n k = (Inr False, k) \<and>
      is_programme_too_far_past w time_str n k = (Inr False, k)) \<and>
   (parse_xmltv_time w (elem_get e ''start'') = None \<longrightarrow>
      programmes_skipped_future (fst (snd (handle_programme w cfg valid e c s))) =
        programmes_skipped_future c) \<and>
   (parse_xmltv_time w (elem_get e ''stop'') = None \<longrightarrow>
      programmes_skipped_past (fst (snd (handle_programme w cfg valid e c s))) =
        programmes_skipped_past c)"
proof -
  have slice: "parse_xmltv_time w (Some ts) = parse_xmltv_time w (Some (take 14 ts))"
    by (cases ts) (simp_all add: parse_xmltv_time_def)
  have filters: "is_programme_too_far_future w time_str n k = (Inr False, k) \<and>
      is_programme_too_far_past w time_str n k = (Inr False, k)"
    if "parse_xmltv_time w time_str = None" for time_str n k
    using that by (simp add: is_programme_too_far_future_def is_programme_too_far_past_def)
  have start: "programmes_skipped_future (fst (snd (handle_programme w cfg valid e c s))) =
        programmes_skipped_future c"
    if "parse_xmltv_time w (elem_get e ''start'') = None"
    using filters [OF that]
    by (auto simp: handle_programme_def Let_def split: prod.splits sum.splits)
  have stop: "programmes_skipped_past (fst (snd (handle_programme w cfg valid e c s))) =
        programmes_skipped_past c"
    if "parse_xmltv_time w (elem_get e ''stop'') = None"
    using filters [OF that]
    by (auto simp: handle_programme_def Let_def split: prod.splits sum.splits)
  show ?thesis
    using slice filters start stop by (simp add: parse_xmltv_time_def)
qed

theorem unparseable_time_never_filters_witness:
  "parse_xmltv_time example_world (Some ''20261104120000 +0000'') = Some 63929390400000000 \<and>
   parse_xmltv_time example_world (Some ''next week'') = None \<and>
   is_programme_too_far_future example_world (Some ''next week'') 5 0 = (Inr False, 0) \<and>
   is_programme_too_far_past example_world (Some ''next week'') 1 0 = (Inr False, 0)"
proof -
  have a: "parse_xmltv_time example_world (Some ''next week'') = None"
    by code_simp
  have b: "parse_xmltv_time example_world (Some ''20261104120000 +0000'') = Some 63929390400000000"
    by code_simp
  from a b show ?thesis
    using unparseable_time_never_filters [where w = example_world and time_str = "Some ''next week''"]
    by simp
qed


text \<open>
  C8. For a start and a stop that parse to valid instants, and a valid clock reading:
  the future test answers yes exactly when the window \<open>n\<close> is positive and the start is
  strictly later than now plus \<open>n\<close> days; the past test answers yes exactly when the
  window \<open>m\<close> is positive and the stop is strictly earlier than now minus \<open>m\<close> days.
  When the cutoff is an instant the type can hold, the test returns that truth value;
  a window of 0 answers no for any timestamp.
\<close>

theorem window_filters_exact:
  assumes "parse_xmltv_time w start_time_str = Some start_time"
    and "parse_xmltv_time w stop_time_str = Some stop_time"
    and "valid_datetime start_time" and "valid_datetime stop_time"
    and "valid_datetime (datetime_now w k)"
  shows
    "(fst (is_programme_too_far_future w start_time_str n k) = Inr True) =
       (n > 0 \<and> start_time > datetime_now w k + n * 86400000000) \<and>
     (fst (is_programme_too_far_past w stop_time_str m k) = Inr True) =
       (m > 0 \<and> stop_time < datetime_now w k - m * 86400000000) \<and>
     ((0 < n \<longrightarrow> valid_datetime (datetime_now w k + n * 86400000000)) \<longrightarrow>
        fst (is_programme_too_far_future w start_time_str n k) =
          Inr (n > 0 \<and> start_time > datetime_now w k + n * 86400000000)) \<and>
     ((0 < m \<longrightarrow> valid_datetime (datetime_now w k - m * 86400000000)) \<longrightarrow>
        fst (is_programme_too_far_past w stop_time_str m k) =
          Inr (m > 0 \<and> stop_time < datetime_now w k - m * 86400000000)) \<and>
     is_programme_too_far_future w any_start 0 k = (Inr False, k) \<and>
     is_programme_too_far_past w any_stop 0 k = (Inr False, k)"
proof -
  have fut: "(fst (is_programme_too_far_future w start_time_str n k) = Inr True) =
       (n > 0 \<and> start_time > datetime_now w k + n * 86400000000)"
    using assms(1,3,5)
    by (auto simp: is_programme_too_far_future_def add_days_def valid_datetime_def Let_def)
  have past: "(fst (is_programme_too_far_past w stop_time_str m k) = Inr True) =
       (m > 0 \<and> stop_time < datetime_now w k - m * 86400000000)"
    using assms(2,4,5)
    by (auto simp: is_programme_too_far_past_def add_days_def valid_datetime_def Let_def)
  have fut_ok: "fst (is_programme_too_far_future w start_time_str n k) =
          Inr (n > 0 \<and> start_time > datetime_now w k + n * 86400000000)"
    if "0 < n \<longrightarrow> valid_datetime (datetime_now w k + n * 86400000000)"
    using that assms(1)
    by (auto simp: is_programme_too_far_future_def add_days_def Let_def)
  have past_ok: "fst (is_programme_too_far_past w stop_time_str m k) =
          Inr (m > 0 \<and> stop_time < datetime_now w k - m * 86400000000)"
    if "0 < m \<longrightarrow> valid_datetime (datetime_now w k - m * 86400000000)"
    using that assms(2)
    by (auto simp: is_programme_too_far_past_def add_days_def Let_def)
  have off: "is_programme_too_far_future w any_start 0 k = (Inr False, k)"
    "is_programme_too_far_past w any_stop 0 k = (Inr False, k)"
    by (simp_all add: is_programme_too_far_future_def is_programme_too_far_past_def)
  from fut past fut_ok past_ok off show ?thesis
    by blast
qed

theorem window_filters_exact_witness:
  "fst (is_programme_too_far_future example_world (Some ''20261110120000 +0000'') 5 0) = Inr True \<and>
   fst (is_programme_too_far_future example_world (Some ''20261110120000 +0000'') 6 0) = Inr False \<and>
   fst (is_programme_too_far_past example_world (Some ''20261101120000 +0000'') 1 0) = Inr True \<and>
   fst (is_programme_too_far_past example_world (Some ''20261101120000 +0000'') 3 0) = Inr False"
proof -
  have p1: "parse_xmltv_time example_world (Some ''20261110120000 +0000'') =
      Some 63929908800000000"
    by code_simp
  have p2: "parse_xmltv_time example_world (Some ''20261101120000 +0000'') =
      Some 63929131200000000"
    by code_simp
  have v1: "valid_datetime 63929908800000000"
    by code_simp
  have v2: "valid_datetime 63929131200000000"
    by code_simp
  have now: "datetime_now example_world 0 = 63929390400000000"
    by code_simp
  then have v3: "valid_datetime (datetime_now example_world 0)"
    by (simp add: valid_datetime_def datetime_max_def)
  note w = window_filters_exact [OF p1 p2 v1 v2 v3]
  have "fst (is_programme_too_far_future example_world (Some ''20261110120000 +0000'') 5 0) =
      Inr True"
    using w [of 5] now by simp
  moreover
  have "fst (is_programme_too_far_future example_world (Some ''20261110120000 +0000'') 6 0) =
      Inr False"
    using w [of 6] now by (simp add: valid_datetime_def datetime_max_def)
  moreover
  have "fst (is_programme_too_far_past example_world (Some ''20261101120000 +0000'') 1 0) =
      Inr True"
    using w [of _ 1] now by simp
  moreover
  have "fst (is_programme_too_far_past example_world (Some ''20261101120000 +0000'') 3 0) =
      Inr False"
    using w [of _ 3] now by (simp add: valid_datetime_def datetime_max_def)
  ultimately show ?thesis
    by simp
qed

subsection \<open>The programme key\<close>



subsection \<open>The fetcher\<close>

lemma fetch_attempts_fail:
  assumes "\<forall>a \<in> set as. \<not> succeeds get a"
  shows "fst (fetch_attempts cfg get address timeout as) = None \<and>
         gets_and_sleeps (snd (fetch_attempts cfg get address timeout as)) =
           concat (map (failed_attempt cfg address timeout) as)"
  using assms
proof (induction as)
  case Nil
  then show ?case by (simp add: gets_and_sleeps_def)
next
  case (Cons a as)
  then have ih: "fst (fetch_attempts cfg get address timeout as) = None"
    "gets_and_sleeps (snd (fetch_attempts cfg get address timeout as)) =
           concat (map (failed_attempt cfg address timeout) as)"
    by simp_all
  from Cons.prems have "\<not> succeeds get a" by simp
  moreover have "failed_attempt cfg address timeout a =
      HttpGet address timeout a # after_failure cfg a"
    by (simp add: failed_attempt_def)
  ultimately show ?case
    using ih
    by (cases "get a")
      (auto simp: succeeds_def gets_and_sleeps_def after_failure_def split: prod.splits)
qed

lemma fetch_attempts_first:
  assumes "\<forall>a \<in> set pre. \<not> succeeds get a" "get k = Response r" "status_code r = 200"
  shows "fst (fetch_attempts cfg get address timeout (pre @ k # post)) = Some r \<and>
         gets_and_sleeps (snd (fetch_attempts cfg get address timeout (pre @ k # post))) =
           concat (map (failed_attempt cfg address timeout) pre) @ [HttpGet address timeout k]"
  using assms(1)
proof (induction pre)
  case Nil
  then show ?case using assms(2,3) by (simp add: gets_and_sleeps_def)
next
  case (Cons a pre)
  then have ih: "fst (fetch_attempts cfg get address timeout (pre @ k # post)) = Some r"
    "gets_and_sleeps (snd (fetch_attempts cfg get address timeout (pre @ k # post))) =
           concat (map (failed_attempt cfg address timeout) pre) @ [HttpGet address timeout k]"
    by simp_all
  from Cons.prems have "\<not> succeeds get a" by simp
  moreover have "failed_attempt cfg address timeout a =
      HttpGet address timeout a # after_failure cfg a"
    by (simp add: failed_attempt_def)
  ultimately show ?case
    using ih
    by (cases "get a")
      (auto simp: succeeds_def gets_and_sleeps_def after_failure_def split: prod.splits)
qed

lemma upto_split_at:
  assumes "1 \<le> k" "k \<le> n"
  shows "[1..n] = [1..k - 1] @ k # [k + 1..n]"
proof -
  have "[1..n] = [1..k] @ [k + 1..n]"
    using assms by (rule upto_split2)
  also have "[1..k] = [1..k - 1] @ [k]"
    using assms(1) by (rule upto_rec2)
  finally show ?thesis
    by simp
qed

text \<open>
  C4, as the code has it. The module sets 5 attempts and a delay of 5 seconds. If attempt
  \<open>k\<close> is the first that delivers status 200, its response is returned, after \<open>k\<close>
  requests with one sleep of the delay between two of them. If none of the attempts
  delivers status 200, the result is \<open>None\<close>, after as many requests as the maximum
  and a sleep after each but the last. Every other status, 2xx or not, counts as a
  failure, like a timeout, a connection error or another request error.
\<close>

theorem fetch_with_retry_first_200:
  "max_retries default_config = 5 \<and> retry_delay default_config = 5 \<and>
   (1 \<le> k \<and> k \<le> max_retries cfg \<and> (\<forall>a \<in> {1..<k}. \<not> succeeds get a) \<and>
    get k = Response r \<and> status_code r = 200 \<longrightarrow>
      fst (fetch_with_retry cfg get address timeout) = Some r \<and>
      gets_and_sleeps (snd (fetch_with_retry cfg get address timeout)) =
        concat (map (\<lambda>a. [HttpGet address timeout a, Sleep (retry_delay cfg)]) [1..k - 1]) @
        [HttpGet address timeout k]) \<and>
   (1 \<le> max_retries cfg \<and> (\<forall>a \<in> {1..max_retries cfg}. \<not> succeeds get a) \<longrightarrow>
      fst (fetch_with_retry cfg get address timeout) = None \<and>
      gets_and_sleeps (snd (fetch_with_retry cfg get address timeout)) =
        concat (map (\<lambda>a. [HttpGet address timeout a, Sleep (retry_delay cfg)])
          [1..max_retries cfg - 1]) @
        [HttpGet address timeout (max_retries cfg)])"
proof -
  have sleeps: "map (failed_attempt cfg address timeout) [1..j] =
      map (\<lambda>a. [HttpGet address timeout a, Sleep (retry_delay cfg)]) [1..j]"
    if "j < max_retries cfg" for j
    using that by (simp add: failed_attempt_def after_failure_def)
  have first: "fst (fetch_with_retry cfg get address timeout) = Some r \<and>
      gets_and_sleeps (snd (fetch_with_retry cfg get address timeout)) =
        concat (map (\<lambda>a. [HttpGet address timeout a, Sleep (retry_delay cfg)]) [1..k - 1]) @
        [HttpGet address timeout k]"
    if k: "1 \<le> k" "k \<le> max_retries cfg" and f: "\<forall>a \<in> {1..<k}. \<not> succeeds get a"
      and r: "get k = Response r" "status_code r = 200"
  proof -
    have split: "[1..max_retries cfg] = [1..k - 1] @ k # [k + 1..max_retries cfg]"
      using k by (rule upto_split_at)
    have pre: "\<forall>a \<in> set [1..k - 1]. \<not> succeeds get a"
      using f by auto
    have "k - 1 < max_retries cfg" using k by simp
    from fetch_attempts_first [OF pre r, of cfg address timeout "[k + 1..max_retries cfg]"]
      sleeps [OF this]
    show ?thesis
      by (simp add: fetch_with_retry_def split)
  qed
  have none: "fst (fetch_with_retry cfg get address timeout) = None \<and>
      gets_and_sleeps (snd (fetch_with_retry cfg get address timeout)) =
        concat (map (\<lambda>a. [HttpGet address timeout a, Sleep (retry_delay cfg)])
          [1..max_retries cfg - 1]) @
        [HttpGet address timeout (max_retries cfg)]"
    if n: "1 \<le> max_retries cfg" and f: "\<forall>a \<in> {1..max_retries cfg}. \<not> succeeds get a"
  proof -
    have split: "[1..max_retries cfg] = [1..max_retries cfg - 1] @ [max_retries cfg]"
      using n upto_split_at [of "max_retries cfg" "max_retries cfg"] by simp
    have all: "\<forall>a \<in> set [1..max_retries cfg]. \<not> succeeds get a"
      using f by auto
    have "max_retries cfg - 1 < max_retries cfg" by simp
    from fetch_attempts_fail [OF all, of cfg address timeout] sleeps [OF this]
    show ?thesis
      unfolding fetch_with_retry_def
      by (simp add: split) (simp add: failed_attempt_def after_failure_def)
  qed
  from first none show ?thesis
    by (simp add: default_config_def)
qed

theorem fetch_with_retry_first_200_witness:
  "fetch_with_retry default_config fifth_time_lucky ''http://one.example/epg.xml'' 60 =
     (Some \<lparr>status_code = 200, raw = ([channel_a], Eof)\<rparr>,
      [HttpGet ''http://one.example/epg.xml'' 60 1, Sleep 5,
       HttpGet ''http://one.example/epg.xml'' 60 2, Sleep 5,
       HttpGet ''http://one.example/epg.xml'' 60 3, Close, Sleep 5,
       HttpGet ''http://one.example/epg.xml'' 60 4, Sleep 5,
       HttpGet ''http://one.example/epg.xml'' 60 5]) \<and>
   gets_and_sleeps (snd (fetch_with_retry default_config fifth_time_lucky
       ''http://one.example/epg.xml'' 60)) =
      [HttpGet ''http://one.example/epg.xml'' 60 1, Sleep 5,
       HttpGet ''http://one.example/epg.xml'' 60 2, Sleep 5,
       HttpGet ''http://one.example/epg.xml'' 60 3, Sleep 5,
       HttpGet ''http://one.example/epg.xml'' 60 4, Sleep 5,
       HttpGet ''http://one.example/epg.xml'' 60 5]"
proof -
  have run: "fetch_with_retry default_config fifth_time_lucky ''http://one.example/epg.xml'' 60 =
     (Some \<lparr>status_code = 200, raw = ([channel_a], Eof)\<rparr>,
      [HttpGet ''http://one.example/epg.xml'' 60 1, Sleep 5,
       HttpGet ''http://one.example/epg.xml'' 60 2, Sleep 5,
       HttpGet ''http://one.example/epg.xml'' 60 3, Close, Sleep 5,
       HttpGet ''http://one.example/epg.xml'' 60 4, Sleep 5,
       HttpGet ''http://one.example/epg.xml'' 60 5])"
    by code_simp
  have k: "(1::int) \<le> 5 \<and> 5 \<le> max_retries default_config"
    by (simp add: default_config_def)
  have fails: "\<forall>a \<in> {1..<5}. \<not> succeeds fifth_time_lucky a"
    by (auto simp: succeeds_def fifth_time_lucky_def)
  have ok: "fifth_time_lucky 5 = Response \<lparr>status_code = 200, raw = ([channel_a], Eof)\<rparr>"
    by (simp add: fifth_time_lucky_def)
  have upto: "[1..4::int] = [1, 2, 3, 4]"
    by code_simp
  from fetch_with_retry_first_200 [of 5 default_config fifth_time_lucky
      "\<lparr>status_code = 200, raw = ([channel_a], Eof)\<rparr>" "''http://one.example/epg.xml''" 60]
    k fails ok
  have "gets_and_sleeps (snd (fetch_with_retry default_config fifth_time_lucky
       ''http://one.example/epg.xml'' 60)) =
      concat (map (\<lambda>a. [HttpGet ''http://one.example/epg.xml'' 60 a,
          Sleep (retry_delay default_config)]) [1..5 - 1]) @
        [HttpGet ''http://one.example/epg.xml'' 60 5]"
    by simp
  with run show ?thesis
    by (simp add: upto default_config_def)
qed

text \<open>
  C4 as stated fails: a status in the 2xx range other than 200 is not returned. With
  204 at every attempt the fetcher closes each response, retries, and gives up.
\<close>

theorem status_204_is_retried:
  "no_content 1 = Response \<lparr>status_code = 204, raw = ([], Eof)\<rparr> \<and>
   status_code \<lparr>status_code = 204, raw = ([], Eof)\<rparr> \<in> {200..299} \<and>
   fetch_with_retry default_config no_content ''http://one.example/epg.xml'' 60 =
     (None,
      [HttpGet ''http://one.example/epg.xml'' 60 1, Close, Sleep 5,
       HttpGet ''http://one.example/epg.xml'' 60 2, Close, Sleep 5,
       HttpGet ''http://one.example/epg.xml'' 60 3, Close, Sleep 5,
       HttpGet ''http://one.example/epg.xml'' 60 4, Close, Sleep 5,
       HttpGet ''http://one.example/epg.xml'' 60 5, Close])"
  by code_simp

subsection \<open>The shape of the output\<close>

lemma extend_kept:
  assumes "out1 = out \<or> out1 = out @ [Element e]"
    and "out' = out1 @ map Element ks"
    and "subseq ks (filter is_guide_element es)"
    and "is_guide_element e"
  shows "\<exists>ks'. out' = out @ map Element ks' \<and> subseq ks' (filter is_guide_element (e # es))"
  using assms(1)
proof
  assume "out1 = out"
  with assms(2) have "out' = out @ map Element ks" by simp
  moreover from assms(3,4) have "subseq ks (filter is_guide_element (e # es))"
    by (simp add: list_emb_Cons)
  ultimately show ?thesis by blast
next
  assume "out1 = out @ [Element e]"
  with assms(2) have "out' = out @ map Element (e # ks)" by simp
  moreover from assms(3,4) have "subseq (e # ks) (filter is_guide_element (e # es))"
    by simp
  ultimately show ?thesis by blast
qed

lemma parse_loop_output:
  assumes "parse_loop w cfg valid es c s = (r, c', s')"
  shows "\<exists>ks. output_handle s' = output_handle s @ map Element ks \<and>
              subseq ks (filter is_guide_element es)"
  using assms
proof (induction es arbitrary: c s)
  case Nil
  then show ?case by simp
next
  case (Cons e es)
  show ?case
  proof (cases "tag e = ''channel''")
    case True
    obtain c1 s1 where h: "handle_channel valid e c s = (c1, s1)"
      by (cases "handle_channel valid e c s")
    with Cons.prems True have "parse_loop w cfg valid es c1 s1 = (r, c', s')"
      by simp
    from Cons.IH [OF this] obtain ks where ks:
      "output_handle s' = output_handle s1 @ map Element ks"
      "subseq ks (filter is_guide_element es)"
      by blast
    from handle_channel_state [OF h]
    have "output_handle s1 = output_handle s \<or> output_handle s1 = output_handle s @ [Element e]"
      by blast
    moreover from True have "is_guide_element e"
      by (simp add: is_guide_element_def)
    ultimately show ?thesis
      using ks by (intro extend_kept)
  next
    case False
    note not_channel = this
    show ?thesis
    proof (cases "tag e = ''programme''")
      case True
      obtain r1 c1 s1 where h: "handle_programme w cfg valid e c s = (r1, c1, s1)"
        by (cases "handle_programme w cfg valid e c s")
      from handle_programme_state [OF h]
      have out1: "output_handle s1 = output_handle s
                \<or> output_handle s1 = output_handle s @ [Element e]"
        by blast
      have "\<exists>ks. output_handle s' = output_handle s1 @ map Element ks \<and>
              subseq ks (filter is_guide_element es)"
      proof (cases r1)
        case None
        with Cons.prems not_channel True h
        have "parse_loop w cfg valid es c1 s1 = (r, c', s')" by simp
        then show ?thesis by (rule Cons.IH)
      next
        case (Some ex)
        with Cons.prems not_channel True h have "s' = s1" by simp
        then show ?thesis by (auto intro: exI [of _ "[]"])
      qed
      then obtain ks where ks:
        "output_handle s' = output_handle s1 @ map Element ks"
        "subseq ks (filter is_guide_element es)"
        by blast
      from True have "is_guide_element e"
        by (simp add: is_guide_element_def)
      with out1 ks show ?thesis
        by (intro extend_kept)
    next
      case False
      with Cons.prems not_channel
      have "parse_loop w cfg valid es c s = (r, c', s')" by simp
      from Cons.IH [OF this] not_channel False show ?thesis
        by (simp add: is_guide_element_def)
    qed
  qed
qed

lemma process_epg_source_stream:
  "process_epg_source w cfg src valid s =
     (case source_stream w cfg src of
        None \<Rightarrow> s
      | Some (events, ending) \<Rightarrow>
          (case parse_loop w cfg valid events counters0 s of
             (Some ex, c, s') \<Rightarrow> s'
           | (None, c, s') \<Rightarrow>
               if ending = ReadFailure then s'
               else s'\<lparr>stats := update_stats c (stats s')\<rparr>))"
  by (auto simp: process_epg_source_def source_stream_def stream_parse_epg_def
      split: option.splits prod.splits)

lemma process_epg_source_output:
  "\<exists>ks. output_handle (process_epg_source w cfg src valid s) =
          output_handle s @ map Element ks \<and>
        subseq ks (filter is_guide_element (source_events w cfg src))"
proof (cases "source_stream w cfg src")
  case None
  then show ?thesis
    by (auto simp: process_epg_source_stream source_events_def intro: exI [of _ "[]"])
next
  case (Some st)
  obtain events ending where st: "st = (events, ending)"
    by (cases st)
  obtain r c s1 where h: "parse_loop w cfg valid events counters0 s = (r, c, s1)"
    by (cases "parse_loop w cfg valid events counters0 s")
  from parse_loop_output [OF h] obtain ks where
    "output_handle s1 = output_handle s @ map Element ks"
    "subseq ks (filter is_guide_element events)"
    by blast
  moreover have "output_handle (process_epg_source w cfg src valid s) = output_handle s1"
    using Some st h by (cases r) (simp_all add: process_epg_source_stream)
  ultimately show ?thesis
    using Some st by (auto simp: source_events_def)
qed

lemma process_sources_output:
  "\<exists>kss. list_all2 (\<lambda>ks src. subseq ks (filter is_guide_element (source_events w cfg src)))
            kss srcs \<and>
         output_handle (process_sources w cfg valid srcs s) =
           output_handle s @ map Element (concat kss)"
proof (induction srcs arbitrary: s)
  case Nil
  show ?case by simp
next
  case (Cons src srcs)
  obtain ks where ks:
    "output_handle (process_epg_source w cfg src valid s) = output_handle s @ map Element ks"
    "subseq ks (filter is_guide_element (source_events w cfg src))"
    using process_epg_source_output by blast
  obtain kss where kss:
    "list_all2 (\<lambda>ks src. subseq ks (filter is_guide_element (source_events w cfg src)))
       kss srcs"
    "output_handle (process_sources w cfg valid srcs (process_epg_source w cfg src valid s)) =
       output_handle (process_epg_source w cfg src valid s) @ map Element (concat kss)"
    using Cons.IH by blast
  from ks kss show ?case
    by (auto intro!: exI [of _ "ks # kss"])
qed


text \<open>
  C5, as the code has it. The output is the two header lines, then the elements kept
  from the sources, then the closing line. The kept elements of the run are those of
  the first source, then those of the second, and so on in the order of the list; those
  of one source are a subsequence, in document order, of its channel and programme
  elements. Channel and programme elements stand as they were met: nothing moves the
  channels of a later source before the programmes of an earlier one.
\<close>

theorem output_in_encounter_order:
  "\<exists>kss. list_all2 (\<lambda>ks src. subseq ks (filter is_guide_element (source_events w cfg src)))
            kss epg_urls \<and>
         output_handle (filter_and_build_epg w cfg valid epg_urls) =
           [Text (''<?xml version=\"1.0\" encoding=\"utf-8\"?>'' @ [CHR 0x0A]),
            Text (''<tv>'' @ [CHR 0x0A])] @
           map Element (concat kss) @
           [Text (''</tv>'' @ [CHR 0x0A])] \<and>
         document (filter_and_build_epg w cfg valid epg_urls) =
           ''<?xml version=\"1.0\" encoding=\"utf-8\"?>'' @ [CHR 0x0A] @ ''<tv>'' @ [CHR 0x0A] @
           concat (map (\<lambda>e. ''  '' @ serialized e @ [CHR 0x0A]) (concat kss)) @
           ''</tv>'' @ [CHR 0x0A]"
proof -
  obtain kss where kss:
    "list_all2 (\<lambda>ks src. subseq ks (filter is_guide_element (source_events w cfg src)))
       kss epg_urls"
    "output_handle (process_sources w cfg valid epg_urls (write_xml_header state0)) =
       output_handle (write_xml_header state0) @ map Element (concat kss)"
    using process_sources_output by blast
  then have out: "output_handle (filter_and_build_epg w cfg valid epg_urls) =
           [Text (''<?xml version=\"1.0\" encoding=\"utf-8\"?>'' @ [CHR 0x0A]),
            Text (''<tv>'' @ [CHR 0x0A])] @
           map Element (concat kss) @
           [Text (''</tv>'' @ [CHR 0x0A])]"
    by (simp add: filter_and_build_epg_def write_xml_footer_def write_xml_header_def state0_def)
  have "concat (map chunk_text (map Element ks)) =
      concat (map (\<lambda>e. ''  '' @ serialized e @ [CHR 0x0A]) ks)" for ks
    by (induction ks) simp_all
  with out have "document (filter_and_build_epg w cfg valid epg_urls) =
           ''<?xml version=\"1.0\" encoding=\"utf-8\"?>'' @ [CHR 0x0A] @ ''<tv>'' @ [CHR 0x0A] @
           concat (map (\<lambda>e. ''  '' @ serialized e @ [CHR 0x0A]) (concat kss)) @
           ''</tv>'' @ [CHR 0x0A]"
    by (simp add: document_def)
  with kss(1) out show ?thesis
    by blast
qed

theorem output_in_encounter_order_witness:
  "output_handle (filter_and_build_epg example_world default_config {} [source_one, source_b]) =
     [Text (''<?xml version=\"1.0\" encoding=\"utf-8\"?>'' @ [CHR 0x0A]),
      Text (''<tv>'' @ [CHR 0x0A]),
      Element channel_a, Element programme_a, Element channel_b, Element programme_b,
      Text (''</tv>'' @ [CHR 0x0A])] \<and>
   (\<exists>kss. output_handle (filter_and_build_epg example_world default_config {}
              [source_one, source_b]) =
           [Text (''<?xml version=\"1.0\" encoding=\"utf-8\"?>'' @ [CHR 0x0A]),
            Text (''<tv>'' @ [CHR 0x0A])] @
           map Element (concat kss) @
           [Text (''</tv>'' @ [CHR 0x0A])])"
proof -
  have "output_handle (filter_and_build_epg example_world default_config {}
          [source_one, source_b]) =
     [Text (''<?xml version=\"1.0\" encoding=\"utf-8\"?>'' @ [CHR 0x0A]),
      Text (''<tv>'' @ [CHR 0x0A]),
      Element channel_a, Element programme_a, Element channel_b, Element programme_b,
      Text (''</tv>'' @ [CHR 0x0A])]"
    by code_simp
  moreover
  from output_in_encounter_order [of example_world default_config "[source_one, source_b]" "{}"]
  have "\<exists>kss. output_handle (filter_and_build_epg example_world default_config {}
              [source_one, source_b]) =
           [Text (''<?xml version=\"1.0\" encoding=\"utf-8\"?>'' @ [CHR 0x0A]),
            Text (''<tv>'' @ [CHR 0x0A])] @
           map Element (concat kss) @
           [Text (''</tv>'' @ [CHR 0x0A])]"
    by blast
  ultimately show ?thesis
    by blast
qed

text \<open>
  C5 as stated fails where it puts all channel elements before all programme elements:
  with two sources that each deliver a channel and a programme, the programme of the
  first is written before the channel of the second.
\<close>

theorem programme_before_channel:
  "\<not> channels_then_programmes
       (written (output_handle (filter_and_build_epg example_world default_config {}
          [source_one, source_b])))"
  by code_simp


subsection \<open>A parse error in the middle of a source\<close>



subsection \<open>The text repair\<close>

lemma sub_programme_unfold:
  assumes "s \<noteq> []"
  shows "sub_programme s =
     (if tag_gap_match s
      then close_tag @ [CHR 0x0A] @ open_tag @ sub_programme (after_tag_gap s)
      else hd s # sub_programme (tl s))"
  using assms by (cases s) simp_all

lemma str_replace_unfold:
  assumes "s \<noteq> []" "old \<noteq> []"
  shows "str_replace old new s =
     (if prefix old s then new @ str_replace old new (drop (length old) s)
      else hd s # str_replace old new (tl s))"
  using assms by (cases s; cases old) auto

lemma not_space_lt: "\<not> is_space CHR ''<''"
  by (simp add: is_space_def)

lemma dropWhile_spaces:
  assumes "list_all is_space ws"
  shows "dropWhile is_space (ws @ open_tag @ v) = open_tag @ v"
proof -
  from assms have "dropWhile is_space (ws @ open_tag @ v) = dropWhile is_space (open_tag @ v)"
    by (simp add: dropWhile_append2 list_all_iff)
  then show ?thesis
    by (simp add: open_tag_def not_space_lt)
qed

lemma tag_gap_match_iff:
  "tag_gap_match s = (\<exists>ws v. list_all is_space ws \<and> s = close_tag @ ws @ open_tag @ v)"
proof
  assume m: "tag_gap_match s"
  then obtain rest where rest: "s = close_tag @ rest"
    by (auto simp: tag_gap_match_def prefix_def)
  with m obtain v where v: "dropWhile is_space rest = open_tag @ v"
    by (auto simp: tag_gap_match_def prefix_def)
  have "rest = takeWhile is_space rest @ dropWhile is_space rest"
    by simp
  with v have "rest = takeWhile is_space rest @ open_tag @ v"
    by simp
  moreover have "list_all is_space (takeWhile is_space rest)"
    by (auto simp: list_all_iff dest: set_takeWhileD)
  ultimately show "\<exists>ws v. list_all is_space ws \<and> s = close_tag @ ws @ open_tag @ v"
    using rest by blast
next
  assume "\<exists>ws v. list_all is_space ws \<and> s = close_tag @ ws @ open_tag @ v"
  then obtain ws v where "list_all is_space ws" "s = close_tag @ ws @ open_tag @ v"
    by blast
  then show "tag_gap_match s"
    by (simp add: tag_gap_match_def dropWhile_spaces)
qed

lemma after_tag_gap_match:
  assumes "list_all is_space ws"
  shows "after_tag_gap (close_tag @ ws @ open_tag @ v) = v"
  using assms by (simp add: after_tag_gap_def dropWhile_spaces)

lemma sub_programme_first:
  assumes "\<forall>i<length u. \<not> tag_gap_match (drop i (u @ close_tag @ ws @ open_tag @ v))"
    and "list_all is_space ws"
  shows "sub_programme (u @ close_tag @ ws @ open_tag @ v) =
           u @ close_tag @ [CHR 0x0A] @ open_tag @ sub_programme v"
  using assms(1)
proof (induction u)
  case Nil
  have "close_tag @ ws @ open_tag @ v \<noteq> []"
    by (simp add: close_tag_def)
  moreover have "tag_gap_match (close_tag @ ws @ open_tag @ v)"
    using assms(2) by (auto simp: tag_gap_match_iff)
  ultimately show ?case
    using assms(2) by (simp add: sub_programme_unfold after_tag_gap_match)
next
  case (Cons x u)
  from Cons.prems have "\<not> tag_gap_match (x # u @ close_tag @ ws @ open_tag @ v)"
    by fastforce
  moreover
  from Cons.prems
  have "\<forall>i<length u. \<not> tag_gap_match (drop i (u @ close_tag @ ws @ open_tag @ v))"
    by fastforce
  then have "sub_programme (u @ close_tag @ ws @ open_tag @ v) =
           u @ close_tag @ [CHR 0x0A] @ open_tag @ sub_programme v"
    by (rule Cons.IH)
  ultimately show ?case
    by simp
qed

lemma sub_programme_none:
  assumes "\<forall>i<length s. \<not> tag_gap_match (drop i s)"
  shows "sub_programme s = s"
  using assms
proof (induction s)
  case Nil
  show ?case by simp
next
  case (Cons x s)
  from Cons.prems have "\<not> tag_gap_match (x # s)"
    by fastforce
  moreover from Cons.prems have "\<forall>i<length s. \<not> tag_gap_match (drop i s)"
    by fastforce
  then have "sub_programme s = s"
    by (rule Cons.IH)
  ultimately show ?case
    by simp
qed

lemma str_replace_first:
  assumes "old \<noteq> []"
    and "\<forall>i<length u. \<not> prefix old (drop i (u @ old @ v))"
  shows "str_replace old new (u @ old @ v) = u @ new @ str_replace old new v"
  using assms(2)
proof (induction u)
  case Nil
  from assms(1) have "old @ v \<noteq> []"
    by simp
  then show ?case
    using assms(1) by (simp add: str_replace_unfold)
next
  case (Cons x u)
  from Cons.prems have "\<not> prefix old (x # u @ old @ v)"
    by fastforce
  moreover
  from Cons.prems have "\<forall>i<length u. \<not> prefix old (drop i (u @ old @ v))"
    by fastforce
  then have "str_replace old new (u @ old @ v) = u @ new @ str_replace old new v"
    by (rule Cons.IH)
  ultimately show ?case
    using assms(1) by simp
qed

lemma str_replace_none:
  assumes "old \<noteq> []"
    and "\<forall>i<length s. \<not> prefix old (drop i s)"
  shows "str_replace old new s = s"
  using assms(2)
proof (induction s)
  case Nil
  show ?case using assms(1) by simp
next
  case (Cons x s)
  from Cons.prems have "\<not> prefix old (x # s)"
    by fastforce
  moreover from Cons.prems have "\<forall>i<length s. \<not> prefix old (drop i s)"
    by fastforce
  then have "str_replace old new s = s"
    by (rule Cons.IH)
  ultimately show ?case
    using assms(1) by simp
qed


lemma all_less_list_all: "list_all P [0..<n] \<Longrightarrow> \<forall>i<n. P i"
  by (simp add: list_all_iff)

text \<open>
  C9, as the code has it. The function is three passes in this order. First, each
  occurrence of \<^verbatim>\<open>&amp;amp;\<close>, found from the left and without overlap, becomes
  \<^verbatim>\<open>&amp;\<close>: the text up to the first occurrence stays, and the pass goes on after
  it; a text without an occurrence stays as it is. Second, wherever \<^verbatim>\<open></programme>\<close>
  is followed by a run of whitespace, empty or not, and then \<^verbatim>\<open><programme\<close>, the run
  is replaced by exactly one newline, again from the left; a text without such a place
  stays as it is. Third, of the result only the characters 0x20 to 0x7E, newline,
  carriage return and tab are kept.
\<close>

theorem fix_xml_issues_repairs:
  "fix_xml_issues s =
     filter keep_char (sub_programme (str_replace ''&amp;amp;'' ''&amp;'' s)) \<and>
   ((\<forall>i<length u. \<not> prefix ''&amp;amp;'' (drop i (u @ ''&amp;amp;'' @ v))) \<longrightarrow>
      str_replace ''&amp;amp;'' ''&amp;'' (u @ ''&amp;amp;'' @ v) =
        u @ ''&amp;'' @ str_replace ''&amp;amp;'' ''&amp;'' v) \<and>
   ((\<forall>i<length t. \<not> prefix ''&amp;amp;'' (drop i t)) \<longrightarrow>
      str_replace ''&amp;amp;'' ''&amp;'' t = t) \<and>
   tag_gap_match t =
     (\<exists>ws v. list_all is_space ws \<and> t = ''</programme>'' @ ws @ ''<programme'' @ v) \<and>
   ((\<forall>i<length u.
        \<not> tag_gap_match (drop i (u @ ''</programme>'' @ ws @ ''<programme'' @ v))) \<and>
    list_all is_space ws \<longrightarrow>
      sub_programme (u @ ''</programme>'' @ ws @ ''<programme'' @ v) =
        u @ ''</programme>'' @ [CHR 0x0A] @ ''<programme'' @ sub_programme v) \<and>
   ((\<forall>i<length t. \<not> tag_gap_match (drop i t)) \<longrightarrow> sub_programme t = t) \<and>
   list_all keep_char (fix_xml_issues s) \<and>
   keep_char c =
     ((32 \<le> (of_char c :: nat) \<and> (of_char c :: nat) \<le> 126) \<or>
      c = CHR 0x0A \<or> c = CHR 0x0D \<or> c = CHR 0x09)"
proof -
  have pipeline: "fix_xml_issues s =
     filter keep_char (sub_programme (str_replace ''&amp;amp;'' ''&amp;'' s))"
    by (simp add: fix_xml_issues_def)
  have amp_first: "str_replace ''&amp;amp;'' ''&amp;'' (u @ ''&amp;amp;'' @ v) =
        u @ ''&amp;'' @ str_replace ''&amp;amp;'' ''&amp;'' v"
    if "\<forall>i<length u. \<not> prefix ''&amp;amp;'' (drop i (u @ ''&amp;amp;'' @ v))"
    using that by (intro str_replace_first) simp_all
  have amp_none: "str_replace ''&amp;amp;'' ''&amp;'' t = t"
    if "\<forall>i<length t. \<not> prefix ''&amp;amp;'' (drop i t)"
    using that by (intro str_replace_none) simp_all
  have gap: "tag_gap_match t =
     (\<exists>ws v. list_all is_space ws \<and> t = ''</programme>'' @ ws @ ''<programme'' @ v)"
    using tag_gap_match_iff [of t] by (simp only: close_tag_def open_tag_def)
  have gap_first: "sub_programme (u @ ''</programme>'' @ ws @ ''<programme'' @ v) =
        u @ ''</programme>'' @ [CHR 0x0A] @ ''<programme'' @ sub_programme v"
    if "\<forall>i<length u.
        \<not> tag_gap_match (drop i (u @ ''</programme>'' @ ws @ ''<programme'' @ v))"
      "list_all is_space ws"
    using sub_programme_first [of u ws v] that
    by (simp only: close_tag_def open_tag_def)
  have gap_none: "sub_programme t = t" if "\<forall>i<length t. \<not> tag_gap_match (drop i t)"
    using that by (rule sub_programme_none)
  have kept: "list_all keep_char (fix_xml_issues s)"
    by (simp add: pipeline list_all_iff)
  have "of_char c = (10::nat) \<longleftrightarrow> c = CHR 0x0A" "of_char c = (13::nat) \<longleftrightarrow> c = CHR 0x0D"
    "of_char c = (9::nat) \<longleftrightarrow> c = CHR 0x09"
    by (cases c; simp)+
  then have char_class: "keep_char c =
     ((32 \<le> (of_char c :: nat) \<and> (of_char c :: nat) \<le> 126) \<or>
      c = CHR 0x0A \<or> c = CHR 0x0D \<or> c = CHR 0x09)"
    by (simp add: keep_char_def Let_def)
  from pipeline amp_first amp_none gap gap_first gap_none kept char_class show ?thesis
    by blast
qed

theorem fix_xml_issues_repairs_witness:
  "sub_programme (''<title>A &amp; B</title>'' @ ''</programme>'' @ [CHR 0x0A, CHR 0x20] @
       ''<programme'' @ ''>'' @ [CHR 0x07] @ ''<title>C</title></programme>'') =
     ''<title>A &amp; B</title>'' @ ''</programme>'' @ [CHR 0x0A] @ ''<programme'' @
       sub_programme (''>'' @ [CHR 0x07] @ ''<title>C</title></programme>'') \<and>
   fix_xml_issues garbled_guide =
     ''<title>A &amp; B</title></programme>'' @ [CHR 0x0A] @
     ''<programme><title>C</title></programme>''"
proof -
  let ?u = "''<title>A &amp; B</title>''"
  let ?ws = "[CHR 0x0A, CHR 0x20]"
  let ?v = "''>'' @ [CHR 0x07] @ ''<title>C</title></programme>''"
  have none: "\<forall>i<length ?u.
      \<not> tag_gap_match (drop i (?u @ ''</programme>'' @ ?ws @ ''<programme'' @ ?v))"
    by (rule all_less_list_all) code_simp
  have ws: "list_all is_space ?ws"
    by code_simp
  note law = fix_xml_issues_repairs [where u = "?u" and ws = "?ws" and v = "?v",
      THEN conjunct2, THEN conjunct2, THEN conjunct2, THEN conjunct2, THEN conjunct1]
  have "sub_programme (?u @ ''</programme>'' @ ?ws @ ''<programme'' @ ?v) =
      ?u @ ''</programme>'' @ [CHR 0x0A] @ ''<programme'' @ sub_programme ?v"
    using none ws by (intro law [THEN mp] conjI)
  moreover have "fix_xml_issues garbled_guide =
     ''<title>A &amp; B</title></programme>'' @ [CHR 0x0A] @
     ''<programme><title>C</title></programme>''"
    by code_simp
  ultimately show ?thesis
    by (rule conjI)
qed

text \<open>
  C9 as stated fails: the second pass does more than insert a newline between adjacent
  tags. In a text where the tags already have a newline between them, nothing is doubly
  escaped and every character is printable, the indentation before the opening tag is
  removed.
\<close>

theorem indentation_is_removed:
  "\<not> contains ''&amp;amp;'' indented_guide \<and>
   \<not> contains ''</programme><programme'' indented_guide \<and>
   list_all keep_char indented_guide \<and>
   fix_xml_issues indented_guide = ''</programme>'' @ [CHR 0x0A] @ ''<programme'' \<and>
   fix_xml_issues indented_guide \<noteq> indented_guide"
  by code_simp

end
